theory Spec2Isabelle
  imports Main "HOL-Library.Sublist"
begin

section \<open>Errors\<close>

text \<open>
  The error classes of \<^verbatim>\<open>utils/errors.js\<close> that the modelled code throws, each with its
  message.  \<open>SeatLockError\<close> also carries \<^verbatim>\<open>details.expiresIn\<close>.  \<open>DuplicateKeyError\<close> is
  the rejection of an insert by a unique index of the durable store, \<open>StoreError\<close> any other
  rejected write, \<open>TransactionError\<close> the driver's refusal to abort a transaction that was
  already committed, and \<open>CastError\<close> the error of a query whose id cannot be cast to an
  \<^verbatim>\<open>ObjectId\<close>.
\<close>

datatype error =
    NotFoundError string
  | ConflictError string
  | SeatLockError string "nat option"
  | PaymentError string
  | AuthenticationError string
  | AuthorizationError string
  | DuplicateKeyError string
  | StoreError
  | TransactionError
  | CastError string

section \<open>Lock service (\<^verbatim>\<open>LockService\<close>)\<close>

text \<open>
  The value stored under a seat's key.  Times are milliseconds since the epoch, as
  \<^verbatim>\<open>Date.now()\<close> returns them; \<^verbatim>\<open>expiresAt\<close> is written as an ISO string with millisecond
  precision and read back with \<^verbatim>\<open>new Date\<close>, which gives the same number.
\<close>

record lock =
  lock_reservationToken :: string
  lock_userId :: string
  lock_timestamp :: nat
  lock_expiresAt :: nat

text \<open>
  The key/value store, as the list of its keys with their values.  Only \<^verbatim>\<open>acquireLock\<close>
  writes to it, so every value is a well-formed lock and \<^verbatim>\<open>JSON.parse\<close> in \<^verbatim>\<open>getLock\<close>
  never fails.
\<close>

type_synonym redis = "(string \<times> lock) list"

definition getLockKey :: "string \<Rightarrow> string" where
  "getLockKey seatId = ''seat:lock:'' @ seatId"

definition redis_get :: "redis \<Rightarrow> string \<Rightarrow> lock option" where
  "redis_get store key = map_of store key"

text \<open>\<^verbatim>\<open>SET key value NX EX ttl\<close>: \<open>None\<close> is the reply \<^verbatim>\<open>null\<close> (the key exists).\<close>

definition redis_set_nx :: "redis \<Rightarrow> string \<Rightarrow> lock \<Rightarrow> redis option" where
  "redis_set_nx store key v =
     (if key \<in> set (map fst store) then None else Some (store @ [(key, v)]))"

text \<open>\<^verbatim>\<open>DEL key\<close>: the number of keys removed, and the store without the key.\<close>

definition redis_del :: "redis \<Rightarrow> string \<Rightarrow> nat \<times> redis" where
  "redis_del store key =
     ((if key \<in> set (map fst store) then 1 else 0), filter (\<lambda>kv. fst kv \<noteq> key) store)"

definition getLock :: "redis \<Rightarrow> string \<Rightarrow> lock option" where
  "getLock store seatId = redis_get store (getLockKey seatId)"

text \<open>
  \<^verbatim>\<open>Math.max(0, Math.ceil((new Date(expiresAt) - new Date()) / 1000))\<close>: the ceiling of a
  quotient of integers.
\<close>

definition calculateRemainingTime :: "nat \<Rightarrow> nat \<Rightarrow> nat" where
  "calculateRemainingTime now expiresAt =
     nat (max 0 (- ((int now - int expiresAt) div 1000)))"

record lock_details =
  ld_reservationToken :: string
  ld_expiresAt :: nat
  ld_ttl :: nat

text \<open>
  \<^verbatim>\<open>acquireLock(seatId, userId)\<close>.  \<open>ttl\<close> is \<^verbatim>\<open>env.LOCK_TTL_SECONDS\<close>, \<open>now\<close> the reading of
  \<^verbatim>\<open>Date.now()\<close> and \<open>uuid\<close> the value of \<^verbatim>\<open>uuidv4()\<close>.  On success the new store is returned
  with the lock details.
\<close>

definition acquireLock ::
  "nat \<Rightarrow> nat \<Rightarrow> string \<Rightarrow> redis \<Rightarrow> string \<Rightarrow> string \<Rightarrow> error + (lock_details \<times> redis)" where
  "acquireLock ttl now uuid store seatId userId =
     (let key = getLockKey seatId;
          reservationToken = uuid;
          timestamp = now;
          expiresAt = timestamp + ttl * 1000;
          lockData = \<lparr>lock_reservationToken = reservationToken, lock_userId = userId,
                      lock_timestamp = timestamp, lock_expiresAt = expiresAt\<rparr>
      in case redis_set_nx store key lockData of
           None \<Rightarrow>
             Inl (SeatLockError ''Seat is already locked by another user''
                    (case getLock store seatId of
                       Some existingLock \<Rightarrow>
                         Some (calculateRemainingTime now (lock_expiresAt existingLock))
                     | None \<Rightarrow> None))
         | Some store' \<Rightarrow>
             Inr (\<lparr>ld_reservationToken = reservationToken, ld_expiresAt = expiresAt,
                    ld_ttl = ttl\<rparr>, store'))"

text \<open>\<^verbatim>\<open>verifyLock(seatId, reservationToken, userId)\<close>, at the instant \<open>now\<close>.\<close>

definition verifyLock :: "nat \<Rightarrow> redis \<Rightarrow> string \<Rightarrow> string \<Rightarrow> string \<Rightarrow> bool" where
  "verifyLock now store seatId reservationToken userId =
     (case getLock store seatId of
        None \<Rightarrow> False
      | Some l \<Rightarrow>
          lock_reservationToken l = reservationToken \<and>
          lock_userId l = userId \<and>
          lock_expiresAt l > now)"

text \<open>
  \<^verbatim>\<open>releaseLock(seatId, reservationToken = null)\<close>.  The token is tested for truthiness, so
  the empty string counts as no token.  The result is \<^verbatim>\<open>result === 1\<close> with the new store.
\<close>

definition releaseLock :: "redis \<Rightarrow> string \<Rightarrow> string option \<Rightarrow> error + (bool \<times> redis)" where
  "releaseLock store seatId reservationToken =
     (if (case reservationToken of None \<Rightarrow> False | Some t \<Rightarrow> t \<noteq> [])
         \<and> (case getLock store seatId of
                None \<Rightarrow> False
              | Some l \<Rightarrow> Some (lock_reservationToken l) \<noteq> reservationToken)
      then Inl (SeatLockError ''Invalid reservation token for this seat'' None)
      else (let key = getLockKey seatId;
                (result, store') = redis_del store key
            in Inr (result = 1, store')))"

text \<open>The number of locks the store holds for a seat.\<close>

definition locksOf :: "redis \<Rightarrow> string \<Rightarrow> nat" where
  "locksOf store seatId = length (filter (\<lambda>kv. fst kv = getLockKey seatId) store)"

section \<open>Payment service (\<^verbatim>\<open>PaymentService\<close>)\<close>

definition isDigitChar :: "char \<Rightarrow> bool" where
  "isDigitChar c = (48 \<le> (of_char c :: nat) \<and> (of_char c :: nat) \<le> 57)"

definition isUpperChar :: "char \<Rightarrow> bool" where
  "isUpperChar c = (65 \<le> (of_char c :: nat) \<and> (of_char c :: nat) \<le> 90)"

definition isLowerChar :: "char \<Rightarrow> bool" where
  "isLowerChar c = (97 \<le> (of_char c :: nat) \<and> (of_char c :: nat) \<le> 122)"

text \<open>The character classes \<^verbatim>\<open>[A-Za-z0-9]\<close> and \<^verbatim>\<open>[A-Z0-9]\<close>.\<close>

definition isAlnumChar :: "char \<Rightarrow> bool" where
  "isAlnumChar c = (isUpperChar c \<or> isLowerChar c \<or> isDigitChar c)"

definition isUpperDigitChar :: "char \<Rightarrow> bool" where
  "isUpperDigitChar c = (isUpperChar c \<or> isDigitChar c)"

text \<open>\<^verbatim>\<open>/^pay_[A-Za-z0-9]+$/\<close>\<close>

definition razorpayPattern :: "string \<Rightarrow> bool" where
  "razorpayPattern p =
     (prefix ''pay_'' p \<and> drop 4 p \<noteq> [] \<and> list_all isAlnumChar (drop 4 p))"

text \<open>
  \<^verbatim>\<open>/^PAY-[A-Z0-9]+-[A-Z0-9]+$/\<close>.  The hyphen is outside the class, so the first group is
  the longest run of class characters after \<^verbatim>\<open>PAY-\<close>.
\<close>

definition simulatedPattern :: "string \<Rightarrow> bool" where
  "simulatedPattern p =
     (prefix ''PAY-'' p \<and>
      (let rest = drop 4 p;
           a = takeWhile isUpperDigitChar rest;
           rem = dropWhile isUpperDigitChar rest
       in a \<noteq> [] \<and> rem \<noteq> [] \<and> hd rem = CHR ''-'' \<and>
          tl rem \<noteq> [] \<and> list_all isUpperDigitChar (tl rem)))"

definition validatePaymentIdFormat :: "string \<Rightarrow> bool" where
  "validatePaymentIdFormat paymentId =
     (razorpayPattern paymentId \<or> simulatedPattern paymentId)"

record payment_verification =
  pv_paymentId :: string
  pv_status :: string
  pv_timestamp :: string

text \<open>
  \<^verbatim>\<open>verifyPayment(paymentId)\<close>; \<open>isoStr\<close> is \<^verbatim>\<open>new Date().toISOString()\<close>.  The empty string is the
  falsy payment id.  The function consults nothing but the format of the id.
\<close>

definition verifyPayment :: "string \<Rightarrow> string \<Rightarrow> error + payment_verification" where
  "verifyPayment isoStr paymentId =
     (if paymentId = [] then Inl (PaymentError ''Payment ID is required'')
      else if \<not> validatePaymentIdFormat paymentId
        then Inl (PaymentError ''Invalid payment ID format'')
      else Inr \<lparr>pv_paymentId = paymentId, pv_status = ''VERIFIED'', pv_timestamp = isoStr\<rparr>)"

text \<open>
  The reference mode of the specification, in its words: the reference has one of the
  accepted prefixes, and the gateway reports it captured and not consumed.  The gateway is
  the list of the references it has captured and the list of those already consumed.
\<close>

record gateway =
  gw_captured :: "string list"
  gw_consumed :: "string list"

definition spec_reference_verified :: "gateway \<Rightarrow> string \<Rightarrow> bool" where
  "spec_reference_verified gw paymentId =
     ((prefix ''pay_'' paymentId \<or> prefix ''PAY-'' paymentId) \<and>
      paymentId \<in> set (gw_captured gw) \<and> paymentId \<notin> set (gw_consumed gw))"

section \<open>Documents of the durable store\<close>

datatype seat_status = AVAILABLE | BOOKED

datatype reservation_status = ACTIVE | EXPIRED | CONFIRMED | RELEASED

datatype payment_status = PENDING | SUCCESS | FAILED

record seat =
  seat_id :: string
  seat_appId :: string
  seat_domain :: string
  seat_entityId :: string
  seat_seatNumber :: string
  seat_status :: seat_status
  seat_price :: nat
  seat_bookedBy :: "string option"
  seat_bookingId :: "string option"

record reservation =
  res_reservationToken :: string
  res_userId :: string
  res_appId :: string
  res_seatId :: string
  res_status :: reservation_status
  res_expiresAt :: nat
  res_seatNumber :: string
  res_price :: nat
  res_entityId :: string

record booking =
  bk_id :: string
  bk_bookingId :: string
  bk_userId :: string
  bk_appId :: string
  bk_seatId :: string
  bk_reservationToken :: string
  bk_paymentStatus :: payment_status
  bk_paymentId :: string
  bk_amount :: nat
  bk_currency :: string
  bk_bookingDate :: nat
  bk_seatNumber :: string
  bk_entityId :: string
  bk_domain :: string

text \<open>
  The state the engine works on: the three collections, each in insertion order, and the
  lock store.
\<close>

record state =
  seats :: "seat list"
  reservations :: "reservation list"
  bookings :: "booking list"
  redis :: redis

text \<open>
  What a call reads from its environment: the clock (\<^verbatim>\<open>Date.now()\<close>, \<^verbatim>\<open>new Date()\<close>) and
  its ISO rendering, \<^verbatim>\<open>uuidv4()\<close>, \<^verbatim>\<open>Math.random().toString(36)\<close>, the \<^verbatim>\<open>_id\<close> the driver gives
  a new booking, and whether the durable store accepts the writes of this call (a write
  can be rejected by validation or because the store is unreachable).  Reads of the
  durable store and commands of the lock store are taken to succeed.
\<close>

record env =
  env_now :: nat
  env_isoDate :: string
  env_uuid :: string
  env_random36 :: string
  env_objectId :: string
  env_writesOk :: bool

section \<open>Collections\<close>

text \<open>
  The \<^verbatim>\<open>_id\<close> of a document is an \<^verbatim>\<open>ObjectId\<close>, kept here in the spelling its \<^verbatim>\<open>toString()\<close>
  gives: 24 hexadecimal digits in lower case.  A string that a request supplies as an id is
  cast before the query runs: 24 hexadecimal digits in either case denote the id with the
  same digits, and the cast of any other string fails.  (Some versions of the driver also
  take a string of twelve bytes for an id; that form is left out.)
\<close>

definition isHexChar :: "char \<Rightarrow> bool" where
  "isHexChar c =
     (isDigitChar c \<or> (97 \<le> (of_char c :: nat) \<and> (of_char c :: nat) \<le> 102)
        \<or> (65 \<le> (of_char c :: nat) \<and> (of_char c :: nat) \<le> 70))"

definition toLowerChar :: "char \<Rightarrow> char" where
  "toLowerChar c = (if isUpperChar c then char_of ((of_char c :: nat) + 32) else c)"

definition castObjectId :: "string \<Rightarrow> string option" where
  "castObjectId v =
     (if length v = 24 \<and> list_all isHexChar v then Some (map toLowerChar v) else None)"

text \<open>
  \<^verbatim>\<open>findById\<close> with an \<^verbatim>\<open>ObjectId\<close>, and \<^verbatim>\<open>findOne\<close> by token: the first document that
  matches.
\<close>

definition findSeatById :: "seat list \<Rightarrow> string \<Rightarrow> seat option" where
  "findSeatById rows sid = find (\<lambda>x. seat_id x = sid) rows"

definition findReservation :: "reservation list \<Rightarrow> string \<Rightarrow> reservation option" where
  "findReservation rows token = find (\<lambda>r. res_reservationToken r = token) rows"

text \<open>
  \<^verbatim>\<open>doc.save()\<close> of a document that was read from the collection: the document that the
  read returned, the first match, is replaced.
\<close>

fun replaceFirst :: "('a \<Rightarrow> bool) \<Rightarrow> 'a \<Rightarrow> 'a list \<Rightarrow> 'a list" where
  "replaceFirst P y [] = []"
| "replaceFirst P y (x # xs) = (if P x then y # xs else x # replaceFirst P y xs)"

definition saveSeat :: "seat list \<Rightarrow> seat \<Rightarrow> seat list" where
  "saveSeat rows x = replaceFirst (\<lambda>y. seat_id y = seat_id x) x rows"

definition saveReservation :: "reservation list \<Rightarrow> reservation \<Rightarrow> reservation list" where
  "saveReservation rows r =
     replaceFirst (\<lambda>y. res_reservationToken y = res_reservationToken r) r rows"

text \<open>
  \<^verbatim>\<open>save()\<close> of a new document.  \<^verbatim>\<open>reservationToken\<close> has a unique index on reservations;
  \<^verbatim>\<open>bookingId\<close> and \<^verbatim>\<open>_id\<close> have one on bookings.
\<close>

definition insertReservation ::
  "bool \<Rightarrow> reservation list \<Rightarrow> reservation \<Rightarrow> error + reservation list" where
  "insertReservation writesOk rows r =
     (if \<not> writesOk then Inl StoreError
      else if res_reservationToken r \<in> set (map res_reservationToken rows)
        then Inl (DuplicateKeyError ''reservationToken'')
      else Inr (rows @ [r]))"

definition insertBooking :: "booking list \<Rightarrow> booking \<Rightarrow> error + booking list" where
  "insertBooking rows b =
     (if bk_bookingId b \<in> set (map bk_bookingId rows)
        then Inl (DuplicateKeyError ''bookingId'')
      else if bk_id b \<in> set (map bk_id rows) then Inl (DuplicateKeyError ''_id'')
      else Inr (rows @ [b]))"

section \<open>Booking ids (\<^verbatim>\<open>Booking.generateBookingId\<close>)\<close>

text \<open>\<^verbatim>\<open>toUpperCase\<close> on the characters \<^verbatim>\<open>toString(36)\<close> produces.\<close>

definition toUpperChar :: "char \<Rightarrow> char" where
  "toUpperChar c = (if isLowerChar c then char_of ((of_char c :: nat) - 32) else c)"

text \<open>
  \<open>isoStr\<close> is \<^verbatim>\<open>date.toISOString()\<close> and \<open>r\<close> is \<^verbatim>\<open>Math.random().toString(36)\<close>.
  \<^verbatim>\<open>split('T')[0]\<close> is the text before the first \<^verbatim>\<open>T\<close>, \<^verbatim>\<open>replace(/-/g, '')\<close> drops every
  hyphen, and \<^verbatim>\<open>substring(2, 8)\<close> is the characters at positions 2 to 7 that exist.
\<close>

definition generateBookingId :: "string \<Rightarrow> string \<Rightarrow> string" where
  "generateBookingId isoStr r =
     (let dateStr = filter (\<lambda>c. c \<noteq> CHR ''-'') (takeWhile (\<lambda>c. c \<noteq> CHR ''T'') isoStr);
          random = map toUpperChar (take 6 (drop 2 r))
      in ''BK-'' @ dateStr @ ''-'' @ random)"

section \<open>Booking service (\<^verbatim>\<open>BookingService\<close>)\<close>

record reserve_result =
  rr_reservationToken :: string
  rr_expiresAt :: nat
  rr_seat_id :: string
  rr_seatNumber :: string
  rr_price :: nat
  rr_entityId :: string
  rr_ttl :: nat

text \<open>
  \<^verbatim>\<open>reserveSeat(appId, seatId, userId)\<close>.  The result of the call comes with the state it
  leaves behind, also when it throws.  \<open>ttl\<close> is \<^verbatim>\<open>env.LOCK_TTL_SECONDS\<close>.  \<^verbatim>\<open>Seat.findById\<close>
  and the \<^verbatim>\<open>seatId\<close> field of the new reservation take the cast of the request's \<^verbatim>\<open>seatId\<close>;
  \<^verbatim>\<open>acquireLock\<close> takes the string as the request wrote it.
\<close>

definition reserveSeat ::
  "nat \<Rightarrow> env \<Rightarrow> state \<Rightarrow> string \<Rightarrow> string \<Rightarrow> string \<Rightarrow> (error + reserve_result) \<times> state" where
  "reserveSeat ttl e s appId seatId userId =
     (case castObjectId seatId of
        None \<Rightarrow> (Inl (CastError ''_id''), s)
      | Some oid \<Rightarrow>
     (case findSeatById (seats s) oid of
        None \<Rightarrow> (Inl (NotFoundError ''Seat''), s)
      | Some seat \<Rightarrow>
          if seat_appId seat \<noteq> appId
            then (Inl (ConflictError ''Seat does not belong to this app''), s)
          else if seat_status seat \<noteq> AVAILABLE
            then (Inl (ConflictError ''Seat is not available''), s)
          else
            (case acquireLock ttl (env_now e) (env_uuid e) (redis s) seatId userId of
               Inl err \<Rightarrow> (Inl err, s)
             | Inr (lockDetails, store') \<Rightarrow>
                 (let s1 = s\<lparr>redis := store'\<rparr>;
                      reservation =
                        \<lparr>res_reservationToken = ld_reservationToken lockDetails,
                         res_userId = userId, res_appId = appId, res_seatId = oid,
                         res_status = ACTIVE, res_expiresAt = ld_expiresAt lockDetails,
                         res_seatNumber = seat_seatNumber seat, res_price = seat_price seat,
                         res_entityId = seat_entityId seat\<rparr>
                  in case insertReservation (env_writesOk e) (reservations s1) reservation of
                       Inl err \<Rightarrow> (Inl err, s1)
                     | Inr rows \<Rightarrow>
                         (Inr \<lparr>rr_reservationToken = ld_reservationToken lockDetails,
                               rr_expiresAt = ld_expiresAt lockDetails,
                               rr_seat_id = seat_id seat,
                               rr_seatNumber = seat_seatNumber seat,
                               rr_price = seat_price seat,
                               rr_entityId = seat_entityId seat,
                               rr_ttl = ld_ttl lockDetails\<rparr>,
                          s1\<lparr>reservations := rows\<rparr>)))))"

text \<open>\<^verbatim>\<open>reservation.isExpired()\<close>: \<^verbatim>\<open>new Date() > this.expiresAt\<close>.\<close>

definition isExpired :: "nat \<Rightarrow> reservation \<Rightarrow> bool" where
  "isExpired now r = (now > res_expiresAt r)"

text \<open>\<^verbatim>\<open>reservation.status.toLowerCase()\<close>\<close>

fun statusLower :: "reservation_status \<Rightarrow> string" where
  "statusLower ACTIVE = ''active''"
| "statusLower EXPIRED = ''expired''"
| "statusLower CONFIRMED = ''confirmed''"
| "statusLower RELEASED = ''released''"

record confirm_result =
  cr_bookingId :: string
  cr_booking :: booking
  cr_seat_id :: string
  cr_seatNumber :: string
  cr_entityId :: string

text \<open>
  The body of the \<^verbatim>\<open>try\<close> block of \<^verbatim>\<open>confirmBooking\<close>, with its \<^verbatim>\<open>catch\<close>.  The writes of
  the session become visible together at the commit; when a write is rejected the
  transaction is aborted and the state is the one before.  After the commit the lock is
  released; were that to throw, the \<^verbatim>\<open>catch\<close> would call \<^verbatim>\<open>abortTransaction\<close> on a committed
  transaction, and the driver's error for that is what the call throws.
\<close>

definition confirmTransaction ::
  "env \<Rightarrow> state \<Rightarrow> string \<Rightarrow> string \<Rightarrow> string \<Rightarrow> string \<Rightarrow> reservation \<Rightarrow> seat
     \<Rightarrow> (error + confirm_result) \<times> state" where
  "confirmTransaction e s appId reservationToken paymentId userId reservation seat0 =
     (let bookingId = generateBookingId (env_isoDate e) (env_random36 e);
          seat1 = seat0\<lparr>seat_status := BOOKED, seat_bookedBy := Some userId,
                         seat_bookingId := None\<rparr>
      in if \<not> env_writesOk e then (Inl StoreError, s)
         else
           (let seats1 = saveSeat (seats s) seat1;
                booking =
                  \<lparr>bk_id = env_objectId e, bk_bookingId = bookingId, bk_userId = userId,
                   bk_appId = appId, bk_seatId = seat_id seat1,
                   bk_reservationToken = reservationToken, bk_paymentStatus = SUCCESS,
                   bk_paymentId = paymentId, bk_amount = seat_price seat1,
                   bk_currency = ''USD'', bk_bookingDate = env_now e,
                   bk_seatNumber = seat_seatNumber seat1, bk_entityId = seat_entityId seat1,
                   bk_domain = seat_domain seat1\<rparr>
            in case insertBooking (bookings s) booking of
                 Inl err \<Rightarrow> (Inl err, s)
               | Inr bookings1 \<Rightarrow>
                   (let seat2 = seat1\<lparr>seat_bookingId := Some (bk_id booking)\<rparr>;
                        seats2 = saveSeat seats1 seat2;
                        reservations1 =
                          saveReservation (reservations s)
                            (reservation\<lparr>res_status := CONFIRMED\<rparr>);
                        committed = s\<lparr>seats := seats2, reservations := reservations1,
                                      bookings := bookings1\<rparr>
                    in case releaseLock (redis committed) (seat_id seat2)
                              (Some reservationToken) of
                         Inl err \<Rightarrow> (Inl TransactionError, committed)
                       | Inr (_, store') \<Rightarrow>
                           (Inr \<lparr>cr_bookingId = bookingId, cr_booking = booking,
                                 cr_seat_id = seat_id seat2,
                                 cr_seatNumber = seat_seatNumber seat2,
                                 cr_entityId = seat_entityId seat2\<rparr>,
                            committed\<lparr>redis := store'\<rparr>))))"

text \<open>\<^verbatim>\<open>confirmBooking(appId, reservationToken, paymentId, userId)\<close>\<close>

definition confirmBooking ::
  "env \<Rightarrow> state \<Rightarrow> string \<Rightarrow> string \<Rightarrow> string \<Rightarrow> string \<Rightarrow> (error + confirm_result) \<times> state" where
  "confirmBooking e s appId reservationToken paymentId userId =
     (case findReservation (reservations s) reservationToken of
        None \<Rightarrow> (Inl (NotFoundError ''Reservation''), s)
      | Some reservation \<Rightarrow>
          if res_userId reservation \<noteq> userId
            then (Inl (ConflictError ''Reservation does not belong to this user''), s)
          else if res_status reservation \<noteq> ACTIVE
            then (Inl (ConflictError
                         (''Reservation is '' @ statusLower (res_status reservation))), s)
          else if isExpired (env_now e) reservation
            then (if \<not> env_writesOk e then (Inl StoreError, s)
                  else
                    (let s1 = s\<lparr>reservations :=
                                   saveReservation (reservations s)
                                     (reservation\<lparr>res_status := EXPIRED\<rparr>)\<rparr>
                     in case releaseLock (redis s1) (res_seatId reservation) None of
                          Inl err \<Rightarrow> (Inl err, s1)
                        | Inr (_, store') \<Rightarrow>
                            (Inl (ConflictError ''Reservation has expired''),
                             s1\<lparr>redis := store'\<rparr>)))
          else if \<not> verifyLock (env_now e) (redis s) (res_seatId reservation)
                     reservationToken userId
            then (Inl (SeatLockError ''Reservation lock is no longer valid'' None), s)
          else
            (case findSeatById (seats s) (res_seatId reservation) of
               None \<Rightarrow> (Inl (ConflictError ''Seat is no longer available''), s)
             | Some seat \<Rightarrow>
                 if seat_status seat \<noteq> AVAILABLE
                   then (Inl (ConflictError ''Seat is no longer available''), s)
                 else
                   (case verifyPayment (env_isoDate e) paymentId of
                      Inl err \<Rightarrow> (Inl err, s)
                    | Inr _ \<Rightarrow>
                        confirmTransaction e s appId reservationToken paymentId userId
                          reservation seat)))"

text \<open>\<^verbatim>\<open>releaseSeat(reservationToken, userId)\<close>\<close>

definition releaseSeat ::
  "env \<Rightarrow> state \<Rightarrow> string \<Rightarrow> string \<Rightarrow> (error + bool) \<times> state" where
  "releaseSeat e s reservationToken userId =
     (case findReservation (reservations s) reservationToken of
        None \<Rightarrow> (Inl (NotFoundError ''Reservation''), s)
      | Some reservation \<Rightarrow>
          if res_userId reservation \<noteq> userId
            then (Inl (ConflictError ''Reservation does not belong to this user''), s)
          else if res_status reservation = CONFIRMED
            then (Inl (ConflictError ''Cannot release confirmed booking''), s)
          else
            (case releaseLock (redis s) (res_seatId reservation) (Some reservationToken) of
               Inl err \<Rightarrow> (Inl err, s)
             | Inr (_, store') \<Rightarrow>
                 (let s1 = s\<lparr>redis := store'\<rparr>
                  in if \<not> env_writesOk e then (Inl StoreError, s1)
                     else (Inr True,
                           s1\<lparr>reservations :=
                                 saveReservation (reservations s1)
                                   (reservation\<lparr>res_status := RELEASED\<rparr>)\<rparr>))))"

section \<open>Histories\<close>

text \<open>
  The steps that change the state: the three engine operations, each with what it reads
  from its environment, and the lock store dropping a seat's key when its time to live
  has run out (the key was set at \<^verbatim>\<open>timestamp\<close> with a time to live of \<open>ttl\<close> seconds, so it
  is dropped from \<^verbatim>\<open>expiresAt\<close> on).  Each operation runs as one step.
\<close>

datatype event =
    Reserve env string string string
  | Confirm env string string string string
  | Release env string string
  | Expire nat string

definition expireLock :: "nat \<Rightarrow> state \<Rightarrow> string \<Rightarrow> state" where
  "expireLock now s seatId =
     (case getLock (redis s) seatId of
        None \<Rightarrow> s
      | Some l \<Rightarrow>
          if lock_expiresAt l \<le> now
            then s\<lparr>redis := snd (redis_del (redis s) (getLockKey seatId))\<rparr>
          else s)"

fun step :: "nat \<Rightarrow> state \<Rightarrow> event \<Rightarrow> state" where
  "step ttl s (Reserve e appId seatId userId) = snd (reserveSeat ttl e s appId seatId userId)"
| "step ttl s (Confirm e appId token paymentId userId) =
     snd (confirmBooking e s appId token paymentId userId)"
| "step ttl s (Release e token userId) = snd (releaseSeat e s token userId)"
| "step ttl s (Expire now seatId) = expireLock now s seatId"

definition run :: "nat \<Rightarrow> state \<Rightarrow> event list \<Rightarrow> state" where
  "run ttl s es = foldl (step ttl) s es"

text \<open>The engine starts with the seats it was given, and nothing reserved, booked or locked.\<close>

definition initial :: "seat list \<Rightarrow> state" where
  "initial ss = \<lparr>seats = ss, reservations = [], bookings = [], redis = []\<rparr>"

text \<open>The reservations of a seat (by its id) that are \<open>ACTIVE\<close>.\<close>

definition activeReservations :: "state \<Rightarrow> string \<Rightarrow> reservation list" where
  "activeReservations s oid =
     filter (\<lambda>r. res_seatId r = oid \<and> res_status r = ACTIVE) (reservations s)"

text \<open>
  The \<open>ACTIVE\<close> reservations that hold the lock stored for \<open>seatId\<close>, the id as a request
  writes it: the lock under the key of \<open>seatId\<close> carries the reservation's token.
\<close>

definition holdsLock :: "state \<Rightarrow> string \<Rightarrow> reservation \<Rightarrow> bool" where
  "holdsLock s seatId r =
     (case getLock (redis s) seatId of
        None \<Rightarrow> False
      | Some l \<Rightarrow> lock_reservationToken l = res_reservationToken r)"

definition lockedActiveReservations :: "state \<Rightarrow> string \<Rightarrow> reservation list" where
  "lockedActiveReservations s seatId =
     filter (\<lambda>r. res_status r = ACTIVE \<and> holdsLock s seatId r) (reservations s)"

text \<open>
  The locks in the store that are locks of one seat: those whose key is the lock key of a
  string that casts to the seat's id.
\<close>

definition lockSeat :: "string \<Rightarrow> string option" where
  "lockSeat key = (if prefix ''seat:lock:'' key then castObjectId (drop 10 key) else None)"

definition locksOfSeat :: "redis \<Rightarrow> string \<Rightarrow> (string \<times> lock) list" where
  "locksOfSeat store oid = filter (\<lambda>kv. lockSeat (fst kv) = Some oid) store"

text \<open>
  The steps that can take the lock \<open>l\<close> away from the key of \<open>seatId\<close>: the lock store
  dropping the key once the lock's time has run out; a release or a confirmation that
  names the lock's token (the lock service takes the empty token of a release for no
  token); and a confirmation of an expired reservation of the seat, whichever token it
  names, since that path releases the seat's key without a token.
\<close>

fun lockRemover :: "state \<Rightarrow> string \<Rightarrow> lock \<Rightarrow> event \<Rightarrow> bool" where
  "lockRemover s seatId l (Reserve e appId sid userId) = False"
| "lockRemover s seatId l (Expire now sid) = (sid = seatId \<and> lock_expiresAt l \<le> now)"
| "lockRemover s seatId l (Release e token userId) =
     (token = [] \<or> token = lock_reservationToken l)"
| "lockRemover s seatId l (Confirm e appId token paymentId userId) =
     (token = lock_reservationToken l \<or>
      (case findReservation (reservations s) token of
         None \<Rightarrow> False
       | Some r \<Rightarrow> res_seatId r = seatId \<and> isExpired (env_now e) r))"

text \<open>The status changes the engine makes to a stored reservation.\<close>

fun statusMove :: "reservation_status \<Rightarrow> reservation_status \<Rightarrow> bool" where
  "statusMove ACTIVE b = True"
| "statusMove EXPIRED b = (b = EXPIRED \<or> b = RELEASED)"
| "statusMove CONFIRMED b = (b = CONFIRMED)"
| "statusMove RELEASED b = (b = RELEASED)"

section \<open>Tenant authentication (\<^verbatim>\<open>appAuth\<close>)\<close>












section \<open>Example data\<close>

text \<open>Two seats of the tenant \<^verbatim>\<open>event-app\<close>, two registered users, and the environment of a
  call on 22 January 2026.\<close>

definition seatA :: seat where
  "seatA = \<lparr>seat_id = ''65a000000000000000000001'', seat_appId = ''event-app'',
     seat_domain = ''EVENT'', seat_entityId = ''EVENT_2026_CONCERT'', seat_seatNumber = ''A1'',
     seat_status = AVAILABLE, seat_price = 100, seat_bookedBy = None, seat_bookingId = None\<rparr>"

definition seatB :: seat where
  "seatB = \<lparr>seat_id = ''65a000000000000000000002'', seat_appId = ''event-app'',
     seat_domain = ''EVENT'', seat_entityId = ''EVENT_2026_CONCERT'', seat_seatNumber = ''A2'',
     seat_status = AVAILABLE, seat_price = 150, seat_bookedBy = None, seat_bookingId = None\<rparr>"

definition userU :: string where
  "userU = ''65c000000000000000000001''"

definition userV :: string where
  "userV = ''65c000000000000000000002''"

definition envAt :: "nat \<Rightarrow> string \<Rightarrow> string \<Rightarrow> string \<Rightarrow> bool \<Rightarrow> env" where
  "envAt t uuid r oid ok =
     \<lparr>env_now = t, env_isoDate = ''2026-01-22T10:00:00.000Z'', env_uuid = uuid,
      env_random36 = r, env_objectId = oid, env_writesOk = ok\<rparr>"

definition tokenU :: string where
  "tokenU = ''1b9d6bcd-bbfd-4b2d-9b5d-ab8dfbbd4bed''"

definition tokenV :: string where
  "tokenV = ''9c5b94b1-35ad-49bb-b118-8e8fc24abf80''"



definition lockOfU :: lock where
  "lockOfU = \<lparr>lock_reservationToken = tokenU, lock_userId = userU,
               lock_timestamp = 0, lock_expiresAt = 120000\<rparr>"

definition bookingOid :: string where
  "bookingOid = ''65b000000000000000000001''"

text \<open>
  A history in which seat \<open>A1\<close> is reserved and confirmed by user \<open>U\<close>, and seat \<open>A2\<close> is then
  reserved by user \<open>V\<close>; and the environment of a later call on the same day whose random
  string starts with the six digits that the first confirmation drew.
\<close>

definition historyAB :: "event list" where
  "historyAB =
     [Reserve (envAt 0 tokenU ''0.4fzyo82mvyr'' bookingOid True) ''event-app'' (seat_id seatA) userU,
      Confirm (envAt 60000 tokenV ''0.k3x9q2m7p'' bookingOid True) ''event-app'' tokenU
        ''PAY-OK-1'' userU,
      Reserve (envAt 70000 tokenV ''0.4fzyo82mvyr'' bookingOid True) ''event-app'' (seat_id seatB)
        userV]"

definition envCollide :: env where
  "envCollide = envAt 90000 tokenU ''0.k3x9q2zz81'' ''65b000000000000000000002'' True"

text \<open>
  What the engine keeps true of its stores: a key occurs once in the lock store, and a
  reservation token once in the reservations.
\<close>

definition storeInv :: "state \<Rightarrow> bool" where
  "storeInv s =
     (distinct (map fst (redis s)) \<and> distinct (map res_reservationToken (reservations s)))"

text \<open>
  A later collection of reservations \<open>ys\<close> continues an earlier one \<open>xs\<close>: every row of \<open>xs\<close>
  is still in its place, under its token, and its status has moved as \<open>statusMove\<close> allows.
\<close>

definition rowsMove :: "reservation list \<Rightarrow> reservation list \<Rightarrow> bool" where
  "rowsMove xs ys =
     (length xs \<le> length ys \<and>
      list_all2 (\<lambda>x y. res_reservationToken y = res_reservationToken x \<and>
                        statusMove (res_status x) (res_status y))
        xs (take (length xs) ys))"

text \<open>
  A history in which user \<open>U\<close> reserves seat \<open>A1\<close> and does nothing more; the lock runs out
  after its 120 seconds, and a second later user \<open>V\<close> reserves the same seat.
\<close>

definition historyExpiry :: "event list" where
  "historyExpiry =
     [Reserve (envAt 0 tokenU ''0.4fzyo82mvyr'' bookingOid True) ''event-app'' (seat_id seatA) userU,
      Expire 120000 (seat_id seatA),
      Reserve (envAt 121000 tokenV ''0.k3x9q2m7p'' bookingOid True) ''event-app'' (seat_id seatA)
        userV]"

text \<open>
  A history in which user \<open>U\<close> reserves seat \<open>A1\<close>, and a second later user \<open>V\<close> reserves the
  same seat with its id written in capitals.
\<close>

definition seatAUpper :: string where
  "seatAUpper = ''65A000000000000000000001''"

definition historySpelling :: "event list" where
  "historySpelling =
     [Reserve (envAt 0 tokenU ''0.4fzyo82mvyr'' bookingOid True) ''event-app'' (seat_id seatA) userU,
      Reserve (envAt 1000 tokenV ''0.k3x9q2m7p'' bookingOid True) ''event-app'' seatAUpper userV]"

text \<open>
  A history in which user \<open>U\<close> reserves seat \<open>A1\<close>, sends the confirmation ten seconds after
  the reservation has expired, and then releases the reservation.
\<close>

definition historyLate :: "event list" where
  "historyLate =
     [Reserve (envAt 0 tokenU ''0.4fzyo82mvyr'' bookingOid True) ''event-app'' (seat_id seatA) userU,
      Confirm (envAt 130000 tokenV ''0.k3x9q2m7p'' bookingOid True) ''event-app'' tokenU
        ''PAY-OK-1'' userU,
      Release (envAt 140000 tokenV ''0.z81hd03nfa'' bookingOid True) tokenU userU]"

section \<open>Properties of the lock service\<close>

lemma redis_del_absent: "redis_get (snd (redis_del store key)) key = None"
  by (auto simp: redis_del_def redis_get_def map_of_eq_None_iff)

lemma redis_del_other:
  "k \<noteq> key \<Longrightarrow> redis_get (snd (redis_del store key)) k = redis_get store k"
  by (induction store) (auto simp: redis_del_def redis_get_def)

text \<open>
  C9.  \<^verbatim>\<open>verifyLock\<close> returns true exactly when a lock exists for the seat, its token and
  its user are the given ones, and its \<^verbatim>\<open>expiresAt\<close> is strictly later than now; at the
  instant \<^verbatim>\<open>expiresAt\<close> itself it returns false.
\<close>

theorem verifyLock_iff:
  "(verifyLock now store seatId token userId \<longleftrightarrow>
      (\<exists>l. getLock store seatId = Some l \<and> lock_reservationToken l = token \<and>
           lock_userId l = userId \<and> now < lock_expiresAt l))
   \<and> (getLock store seatId = Some l' \<and> now = lock_expiresAt l'
        \<longrightarrow> \<not> verifyLock now store seatId token userId)"
  by (auto simp: verifyLock_def split: option.splits)

theorem verifyLock_iff_witness:
  "verifyLock 119999 [(getLockKey ''s1'', \<lparr>lock_reservationToken = ''t1'', lock_userId = ''u1'',
       lock_timestamp = 0, lock_expiresAt = 120000\<rparr>)] ''s1'' ''t1'' ''u1''
   \<and> \<not> verifyLock 120000 [(getLockKey ''s1'', \<lparr>lock_reservationToken = ''t1'', lock_userId = ''u1'',
       lock_timestamp = 0, lock_expiresAt = 120000\<rparr>)] ''s1'' ''t1'' ''u1''"
  using verifyLock_iff [of 119999 "[(getLockKey ''s1'', \<lparr>lock_reservationToken = ''t1'',
       lock_userId = ''u1'', lock_timestamp = 0, lock_expiresAt = 120000\<rparr>)]" "''s1''" "''t1''" "''u1''"]
    verifyLock_iff [of 120000 "[(getLockKey ''s1'', \<lparr>lock_reservationToken = ''t1'',
       lock_userId = ''u1'', lock_timestamp = 0, lock_expiresAt = 120000\<rparr>)]" "''s1''" "''t1''" "''u1''"
       "\<lparr>lock_reservationToken = ''t1'', lock_userId = ''u1'',
         lock_timestamp = 0, lock_expiresAt = 120000\<rparr>"]
  by (simp add: getLock_def redis_get_def)

section \<open>Evaluation on concrete inputs\<close>

text \<open>\<^verbatim>\<open>toUpperCase\<close> on the digits of base 36.\<close>

lemma toUpperChar_table:
  "toUpperChar CHR ''a'' = CHR ''A''"
  "toUpperChar CHR ''b'' = CHR ''B''"
  "toUpperChar CHR ''c'' = CHR ''C''"
  "toUpperChar CHR ''d'' = CHR ''D''"
  "toUpperChar CHR ''e'' = CHR ''E''"
  "toUpperChar CHR ''f'' = CHR ''F''"
  "toUpperChar CHR ''g'' = CHR ''G''"
  "toUpperChar CHR ''h'' = CHR ''H''"
  "toUpperChar CHR ''i'' = CHR ''I''"
  "toUpperChar CHR ''j'' = CHR ''J''"
  "toUpperChar CHR ''k'' = CHR ''K''"
  "toUpperChar CHR ''l'' = CHR ''L''"
  "toUpperChar CHR ''m'' = CHR ''M''"
  "toUpperChar CHR ''n'' = CHR ''N''"
  "toUpperChar CHR ''o'' = CHR ''O''"
  "toUpperChar CHR ''p'' = CHR ''P''"
  "toUpperChar CHR ''q'' = CHR ''Q''"
  "toUpperChar CHR ''r'' = CHR ''R''"
  "toUpperChar CHR ''s'' = CHR ''S''"
  "toUpperChar CHR ''t'' = CHR ''T''"
  "toUpperChar CHR ''u'' = CHR ''U''"
  "toUpperChar CHR ''v'' = CHR ''V''"
  "toUpperChar CHR ''w'' = CHR ''W''"
  "toUpperChar CHR ''x'' = CHR ''X''"
  "toUpperChar CHR ''y'' = CHR ''Y''"
  "toUpperChar CHR ''z'' = CHR ''Z''"
  "toUpperChar CHR ''0'' = CHR ''0''"
  "toUpperChar CHR ''1'' = CHR ''1''"
  "toUpperChar CHR ''2'' = CHR ''2''"
  "toUpperChar CHR ''3'' = CHR ''3''"
  "toUpperChar CHR ''4'' = CHR ''4''"
  "toUpperChar CHR ''5'' = CHR ''5''"
  "toUpperChar CHR ''6'' = CHR ''6''"
  "toUpperChar CHR ''7'' = CHR ''7''"
  "toUpperChar CHR ''8'' = CHR ''8''"
  "toUpperChar CHR ''9'' = CHR ''9''"
  by code_simp+

text \<open>\<^verbatim>\<open>ObjectId\<close> digits in their lower-case spelling.\<close>

lemma toLowerChar_table:
  "toLowerChar CHR ''A'' = CHR ''a''"
  "toLowerChar CHR ''B'' = CHR ''b''"
  "toLowerChar CHR ''C'' = CHR ''c''"
  "toLowerChar CHR ''D'' = CHR ''d''"
  "toLowerChar CHR ''E'' = CHR ''e''"
  "toLowerChar CHR ''F'' = CHR ''f''"
  "toLowerChar CHR ''a'' = CHR ''a''"
  "toLowerChar CHR ''b'' = CHR ''b''"
  "toLowerChar CHR ''c'' = CHR ''c''"
  "toLowerChar CHR ''d'' = CHR ''d''"
  "toLowerChar CHR ''e'' = CHR ''e''"
  "toLowerChar CHR ''f'' = CHR ''f''"
  "toLowerChar CHR ''0'' = CHR ''0''"
  "toLowerChar CHR ''1'' = CHR ''1''"
  "toLowerChar CHR ''2'' = CHR ''2''"
  "toLowerChar CHR ''3'' = CHR ''3''"
  "toLowerChar CHR ''4'' = CHR ''4''"
  "toLowerChar CHR ''5'' = CHR ''5''"
  "toLowerChar CHR ''6'' = CHR ''6''"
  "toLowerChar CHR ''7'' = CHR ''7''"
  "toLowerChar CHR ''8'' = CHR ''8''"
  "toLowerChar CHR ''9'' = CHR ''9''"
  by code_simp+

lemma castObjectId_examples:
  "castObjectId ''65a000000000000000000001'' = Some ''65a000000000000000000001''"
  "castObjectId ''65a000000000000000000002'' = Some ''65a000000000000000000002''"
  "castObjectId ''65A000000000000000000001'' = Some ''65a000000000000000000001''"
  by (simp_all add: castObjectId_def isHexChar_def isDigitChar_def toLowerChar_table)

lemmas eval_defs = reserveSeat_def confirmBooking_def confirmTransaction_def releaseSeat_def
  initial_def seatA_def seatB_def findSeatById_def findReservation_def acquireLock_def
  redis_set_nx_def redis_del_def redis_get_def getLock_def getLockKey_def releaseLock_def
  verifyLock_def insertReservation_def insertBooking_def saveSeat_def saveReservation_def
  envAt_def Let_def isExpired_def verifyPayment_def validatePaymentIdFormat_def
  razorpayPattern_def simulatedPattern_def isAlnumChar_def isUpperDigitChar_def
  isUpperChar_def isLowerChar_def isDigitChar_def generateBookingId_def
  run_def expireLock_def userU_def userV_def tokenU_def tokenV_def
  seatAUpper_def castObjectId_examples

section \<open>Reserve\<close>

lemma getLock_after_set:
  "redis_set_nx store (getLockKey seatId) v = Some store' \<Longrightarrow> getLock store' seatId = Some v \<and> getLock store seatId = None"
  by (auto simp: redis_set_nx_def getLock_def redis_get_def map_of_eq_None_iff map_add_def rev_image_eqI dest!: map_of_SomeD split: if_splits option.splits)

lemma acquireLock_Inr:
  "acquireLock ttl now uuid store seatId userId = Inr (ld, store') \<Longrightarrow>
     ld = \<lparr>ld_reservationToken = uuid, ld_expiresAt = now + ttl * 1000, ld_ttl = ttl\<rparr>
   \<and> getLock store seatId = None
   \<and> getLock store' seatId = Some \<lparr>lock_reservationToken = uuid, lock_userId = userId,
                       lock_timestamp = now, lock_expiresAt = now + ttl * 1000\<rparr>"
  by (auto simp: acquireLock_def Let_def dest: getLock_after_set split: option.splits)




section \<open>Release of a lock\<close>

lemma filter_absent_key:
  "key \<notin> set (map fst store) \<Longrightarrow> filter (\<lambda>kv. fst kv \<noteq> key) store = store"
  by (induction store) auto

lemma getLock_None_iff: "getLock store seatId = None \<longleftrightarrow> getLockKey seatId \<notin> set (map fst store)"
  by (simp add: getLock_def redis_get_def map_of_eq_None_iff)

lemma getLockKey_inj: "getLockKey a = getLockKey b \<longleftrightarrow> a = b"
  by (simp add: getLockKey_def)

lemma getLock_del_same: "getLock (snd (redis_del store (getLockKey seatId))) seatId = None"
  by (simp add: getLock_def redis_del_absent)

lemma getLock_del_other:
  "other \<noteq> seatId \<Longrightarrow>
     getLock (snd (redis_del store (getLockKey seatId))) other = getLock store other"
  by (simp add: getLock_def redis_del_other getLockKey_inj)

text \<open>
  C3, as the code has it.  With a non-empty expected token: when the seat has a lock with
  another token the call throws \<open>SeatLockError\<close> and returns no new store, so nothing is
  removed; when the seat's lock has the expected token the lock is removed and the call
  returns true; when the seat has no lock the store is unchanged and the call returns
  false.  With no token (or the empty string) the delete is unconditional and the call
  returns whether a key was removed.  A removal leaves the locks of other seats alone.
\<close>

theorem releaseLock_cases:
  "(t \<noteq> [] \<and> getLock store seatId = Some l \<and> lock_reservationToken l \<noteq> t \<longrightarrow>
      releaseLock store seatId (Some t) =
        Inl (SeatLockError ''Invalid reservation token for this seat'' None))
   \<and> (t \<noteq> [] \<and> getLock store seatId = Some l \<and> lock_reservationToken l = t \<longrightarrow>
      (\<exists>store'. releaseLock store seatId (Some t) = Inr (True, store')
         \<and> getLock store' seatId = None
         \<and> (\<forall>other. other \<noteq> seatId \<longrightarrow> getLock store' other = getLock store other)))
   \<and> (getLock store seatId = None \<longrightarrow> releaseLock store seatId tok = Inr (False, store))
   \<and> (tok = None \<or> tok = Some [] \<longrightarrow>
      (\<exists>store'. releaseLock store seatId tok = Inr (getLock store seatId \<noteq> None, store')
         \<and> getLock store' seatId = None
         \<and> (\<forall>other. other \<noteq> seatId \<longrightarrow> getLock store' other = getLock store other)))"
proof (intro conjI impI)
  assume "t \<noteq> [] \<and> getLock store seatId = Some l \<and> lock_reservationToken l \<noteq> t"
  then show "releaseLock store seatId (Some t) =
        Inl (SeatLockError ''Invalid reservation token for this seat'' None)"
    by (simp add: releaseLock_def)
next
  assume a: "t \<noteq> [] \<and> getLock store seatId = Some l \<and> lock_reservationToken l = t"
  then have "getLockKey seatId \<in> set (map fst store)"
    using getLock_None_iff [of store seatId] by auto
  with a have "releaseLock store seatId (Some t) =
      Inr (True, snd (redis_del store (getLockKey seatId)))"
    by (simp add: releaseLock_def redis_del_def)
  then show "\<exists>store'. releaseLock store seatId (Some t) = Inr (True, store')
         \<and> getLock store' seatId = None
         \<and> (\<forall>other. other \<noteq> seatId \<longrightarrow> getLock store' other = getLock store other)"
    by (simp add: getLock_del_same getLock_del_other)
next
  assume a: "getLock store seatId = None"
  then have "getLockKey seatId \<notin> set (map fst store)"
    by (simp add: getLock_None_iff)
  with a show "releaseLock store seatId tok = Inr (False, store)"
    by (simp add: releaseLock_def redis_del_def filter_absent_key split: option.splits)
next
  assume a: "tok = None \<or> tok = Some []"
  then have "releaseLock store seatId tok =
      Inr (getLock store seatId \<noteq> None, snd (redis_del store (getLockKey seatId)))"
    by (auto simp: releaseLock_def redis_del_def getLock_None_iff Let_def)
  then show "\<exists>store'. releaseLock store seatId tok = Inr (getLock store seatId \<noteq> None, store')
         \<and> getLock store' seatId = None
         \<and> (\<forall>other. other \<noteq> seatId \<longrightarrow> getLock store' other = getLock store other)"
    by (simp add: getLock_del_same getLock_del_other)
qed

text \<open>The four cases on a store that holds the lock of \<open>tokenU\<close> on seat \<open>A1\<close>.\<close>

theorem releaseLock_cases_witness:
  "releaseLock [(getLockKey (seat_id seatA), lockOfU)] (seat_id seatA) (Some tokenV) =
       Inl (SeatLockError ''Invalid reservation token for this seat'' None)
   \<and> releaseLock [(getLockKey (seat_id seatA), lockOfU)] (seat_id seatA) (Some tokenU) =
       Inr (True, [])
   \<and> releaseLock [(getLockKey (seat_id seatA), lockOfU)] (seat_id seatB) (Some tokenV) =
       Inr (False, [(getLockKey (seat_id seatA), lockOfU)])
   \<and> releaseLock [(getLockKey (seat_id seatA), lockOfU)] (seat_id seatA) None = Inr (True, [])"
proof -
  let ?st = "[(getLockKey (seat_id seatA), lockOfU)]"
  have g: "getLock ?st (seat_id seatA) = Some lockOfU"
    by (simp add: getLock_def redis_get_def)
  have gB: "getLock ?st (seat_id seatB) = None"
    by (simp add: getLock_def redis_get_def getLockKey_def seatA_def seatB_def)
  have t: "tokenV \<noteq> []" "tokenU \<noteq> []" "lock_reservationToken lockOfU \<noteq> tokenV"
      "lock_reservationToken lockOfU = tokenU"
    by (simp_all add: tokenU_def tokenV_def lockOfU_def)
  have d: "snd (redis_del ?st (getLockKey (seat_id seatA))) = []"
    by (simp add: redis_del_def)
  from releaseLock_cases [of tokenV ?st "seat_id seatA" lockOfU None] g t
  have 1: "releaseLock ?st (seat_id seatA) (Some tokenV) =
       Inl (SeatLockError ''Invalid reservation token for this seat'' None)"
    by simp
  from releaseLock_cases [of tokenU ?st "seat_id seatA" lockOfU None] g t
  have 2: "releaseLock ?st (seat_id seatA) (Some tokenU) = Inr (True, [])"
    by (auto simp: releaseLock_def d redis_del_def)
  from releaseLock_cases [of tokenV ?st "seat_id seatB" lockOfU "Some tokenV"] gB
  have 3: "releaseLock ?st (seat_id seatB) (Some tokenV) = Inr (False, ?st)"
    by simp
  from releaseLock_cases [of tokenV ?st "seat_id seatA" lockOfU None] g
  have 4: "releaseLock ?st (seat_id seatA) None = Inr (True, [])"
    by (auto simp: releaseLock_def redis_del_def)
  from 1 2 3 4 show ?thesis by simp
qed

text \<open>
  C3 as stated fails: with a lock of another token on the seat, the call does not return
  false, it throws.
\<close>

theorem releaseLock_throws_counterexample:
  "releaseLock [(getLockKey (seat_id seatA), lockOfU)] (seat_id seatA) (Some tokenV) =
     Inl (SeatLockError ''Invalid reservation token for this seat'' None)
   \<and> releaseLock [(getLockKey (seat_id seatA), lockOfU)] (seat_id seatA) (Some tokenV) \<noteq>
     Inr (False, [(getLockKey (seat_id seatA), lockOfU)])"
  by (simp add: releaseLock_def getLock_def redis_get_def lockOfU_def tokenU_def tokenV_def)

section \<open>Payment verification\<close>

lemma hyphen_not_upper_digit: "\<not> isUpperDigitChar CHR ''-''"
  by (simp add: isUpperDigitChar_def isUpperChar_def isDigitChar_def)

lemma razorpayPattern_iff:
  "razorpayPattern p \<longleftrightarrow> (\<exists>a. p = ''pay_'' @ a \<and> a \<noteq> [] \<and> list_all isAlnumChar a)"
proof
  assume "razorpayPattern p"
  then obtain a where "p = ''pay_'' @ a" "drop 4 p \<noteq> []" "list_all isAlnumChar (drop 4 p)"
    by (auto simp: razorpayPattern_def prefix_def)
  then show "\<exists>a. p = ''pay_'' @ a \<and> a \<noteq> [] \<and> list_all isAlnumChar a"
    by auto
next
  assume "\<exists>a. p = ''pay_'' @ a \<and> a \<noteq> [] \<and> list_all isAlnumChar a"
  then show "razorpayPattern p"
    by (auto simp: razorpayPattern_def)
qed

lemma simulatedPattern_iff:
  "simulatedPattern p \<longleftrightarrow>
     (\<exists>a b. p = ''PAY-'' @ a @ ''-'' @ b \<and> a \<noteq> [] \<and> b \<noteq> []
        \<and> list_all isUpperDigitChar a \<and> list_all isUpperDigitChar b)"
proof
  assume sp: "simulatedPattern p"
  then obtain rest where p: "p = ''PAY-'' @ rest"
    by (auto simp: simulatedPattern_def prefix_def)
  let ?a = "takeWhile isUpperDigitChar rest"
  let ?r = "dropWhile isUpperDigitChar rest"
  from sp p have f: "?a \<noteq> []" "?r \<noteq> []" "hd ?r = CHR ''-''" "tl ?r \<noteq> []"
      "list_all isUpperDigitChar (tl ?r)"
    by (simp_all add: simulatedPattern_def Let_def)
  then have r: "?r = ''-'' @ tl ?r"
    by (cases ?r) auto
  have "rest = ?a @ ?r" by simp
  with r have "rest = ?a @ ''-'' @ tl ?r" by metis
  moreover have "list_all isUpperDigitChar ?a"
    by (simp add: list_all_iff) (metis set_takeWhileD)
  ultimately show "\<exists>a b. p = ''PAY-'' @ a @ ''-'' @ b \<and> a \<noteq> [] \<and> b \<noteq> []
        \<and> list_all isUpperDigitChar a \<and> list_all isUpperDigitChar b"
    using p f by blast
next
  assume "\<exists>a b. p = ''PAY-'' @ a @ ''-'' @ b \<and> a \<noteq> [] \<and> b \<noteq> []
        \<and> list_all isUpperDigitChar a \<and> list_all isUpperDigitChar b"
  then obtain a b where p: "p = ''PAY-'' @ a @ ''-'' @ b" and ne: "a \<noteq> []" "b \<noteq> []"
    and all: "list_all isUpperDigitChar a" "list_all isUpperDigitChar b"
    by blast
  from all have ina: "\<And>x. x \<in> set a \<Longrightarrow> isUpperDigitChar x"
    by (simp add: list_all_iff)
  have "takeWhile isUpperDigitChar (a @ CHR ''-'' # b) =
          a @ takeWhile isUpperDigitChar (CHR ''-'' # b)"
    by (rule takeWhile_append2) (rule ina)
  then have tw: "takeWhile isUpperDigitChar (a @ CHR ''-'' # b) = a"
    using hyphen_not_upper_digit by simp
  have "dropWhile isUpperDigitChar (a @ CHR ''-'' # b) =
          dropWhile isUpperDigitChar (CHR ''-'' # b)"
    by (rule dropWhile_append2) (rule ina)
  then have dw: "dropWhile isUpperDigitChar (a @ CHR ''-'' # b) = CHR ''-'' # b"
    using hyphen_not_upper_digit by simp
  have d: "drop 4 p = a @ CHR ''-'' # b"
    by (simp add: p)
  show "simulatedPattern p"
    unfolding simulatedPattern_def Let_def d tw dw
    by (simp add: p ne all)
qed

text \<open>
  C7, as the code has it.  \<^verbatim>\<open>verifyPayment\<close> succeeds exactly when the payment id has one of
  the two accepted formats: \<^verbatim>\<open>pay_\<close> followed by one or more letters or digits, or \<^verbatim>\<open>PAY-\<close>
  followed by two non-empty groups of capitals and digits with a hyphen between them.  Any
  other id raises \<open>PaymentError\<close>.  No gateway is consulted.
\<close>

theorem verifyPayment_format_only:
  "((\<exists>v. verifyPayment isoStr p = Inr v) \<longleftrightarrow> validatePaymentIdFormat p)
   \<and> ((\<exists>m. verifyPayment isoStr p = Inl (PaymentError m)) \<longleftrightarrow> \<not> validatePaymentIdFormat p)
   \<and> (validatePaymentIdFormat p \<longleftrightarrow>
        (\<exists>a. p = ''pay_'' @ a \<and> a \<noteq> [] \<and> list_all isAlnumChar a)
      \<or> (\<exists>a b. p = ''PAY-'' @ a @ ''-'' @ b \<and> a \<noteq> [] \<and> b \<noteq> []
            \<and> list_all isUpperDigitChar a \<and> list_all isUpperDigitChar b))"
proof -
  have e: "\<not> validatePaymentIdFormat []"
    by (simp add: validatePaymentIdFormat_def razorpayPattern_def simulatedPattern_def)
  have 1: "(\<exists>v. verifyPayment isoStr p = Inr v) \<longleftrightarrow> validatePaymentIdFormat p"
    using e by (auto simp: verifyPayment_def)
  have 2: "(\<exists>m. verifyPayment isoStr p = Inl (PaymentError m)) \<longleftrightarrow> \<not> validatePaymentIdFormat p"
    using e by (auto simp: verifyPayment_def)
  have 3: "validatePaymentIdFormat p \<longleftrightarrow>
        (\<exists>a. p = ''pay_'' @ a \<and> a \<noteq> [] \<and> list_all isAlnumChar a)
      \<or> (\<exists>a b. p = ''PAY-'' @ a @ ''-'' @ b \<and> a \<noteq> [] \<and> b \<noteq> []
            \<and> list_all isUpperDigitChar a \<and> list_all isUpperDigitChar b)"
    unfolding validatePaymentIdFormat_def razorpayPattern_iff simulatedPattern_iff ..
  from 1 2 3 show ?thesis by blast
qed

text \<open>The payment id of the happy-path scenario is accepted; one with a third group is not.\<close>

theorem verifyPayment_format_only_witness:
  "verifyPayment ''2026-01-22T10:00:00.000Z'' ''PAY-OK-1'' =
      Inr \<lparr>pv_paymentId = ''PAY-OK-1'', pv_status = ''VERIFIED'',
           pv_timestamp = ''2026-01-22T10:00:00.000Z''\<rparr>
   \<and> verifyPayment ''2026-01-22T10:00:00.000Z'' ''PAY-OK-1-2'' =
      Inl (PaymentError ''Invalid payment ID format'')"
proof -
  have a: "validatePaymentIdFormat ''PAY-OK-1''"
    by (simp add: eval_defs)
  have b: "\<not> validatePaymentIdFormat ''PAY-OK-1-2''"
    by (simp add: eval_defs)
  from a verifyPayment_format_only [of "''2026-01-22T10:00:00.000Z''" "''PAY-OK-1''"]
  have "\<exists>v. verifyPayment ''2026-01-22T10:00:00.000Z'' ''PAY-OK-1'' = Inr v" by blast
  moreover from b verifyPayment_format_only [of "''2026-01-22T10:00:00.000Z''" "''PAY-OK-1-2''"]
  have "\<exists>m. verifyPayment ''2026-01-22T10:00:00.000Z'' ''PAY-OK-1-2'' = Inl (PaymentError m)"
    by blast
  ultimately show ?thesis
    by (auto simp: verifyPayment_def split: if_splits)
qed

text \<open>
  C7 as stated fails: the id below is verified although the gateway has captured nothing,
  so the rule of the specification does not hold for it.
\<close>

theorem verifyPayment_no_gateway_counterexample:
  "verifyPayment ''2026-01-22T10:00:00.000Z'' ''pay_Nf3kT9abcXYZ12'' =
      Inr \<lparr>pv_paymentId = ''pay_Nf3kT9abcXYZ12'', pv_status = ''VERIFIED'',
           pv_timestamp = ''2026-01-22T10:00:00.000Z''\<rparr>
   \<and> \<not> spec_reference_verified \<lparr>gw_captured = [], gw_consumed = []\<rparr> ''pay_Nf3kT9abcXYZ12''"
  by (simp add: eval_defs spec_reference_verified_def)

section \<open>Origin check of tenant authentication\<close>






section \<open>Confirm and the tenant of the caller\<close>

lemma confirmTransaction_error_appId:
  "fst (confirmTransaction e s a1 tok pid uid r seat) = Inl err \<longleftrightarrow>
   fst (confirmTransaction e s a2 tok pid uid r seat) = Inl err"
  by (simp add: confirmTransaction_def insertBooking_def Let_def split: sum.splits prod.splits)

lemma confirmTransaction_success_appId:
  "fst (confirmTransaction e s a1 tok pid uid r seat) = Inr res \<Longrightarrow>
     bk_appId (cr_booking res) = a1
   \<and> bookings (snd (confirmTransaction e s a1 tok pid uid r seat)) = bookings s @ [cr_booking res]"
  by (auto simp: confirmTransaction_def insertBooking_def Let_def
      split: sum.splits prod.splits if_splits)

lemma confirmBooking_cases:
  "(\<exists>err. confirmBooking e s a tok pid uid = (Inl err, s) \<and>
      (\<forall>a'. confirmBooking e s a' tok pid uid = (Inl err, s)))
   \<or> (\<exists>err s'. confirmBooking e s a tok pid uid = (Inl err, s') \<and> bookings s' = bookings s \<and>
      (\<forall>a'. confirmBooking e s a' tok pid uid = (Inl err, s')))
   \<or> (\<exists>r seat. \<forall>a'. confirmBooking e s a' tok pid uid =
         confirmTransaction e s a' tok pid uid r seat)"
  by (auto simp: confirmBooking_def Let_def split: option.splits sum.splits prod.splits)

text \<open>
  C10.  The tenant id of the caller takes no part in what \<^verbatim>\<open>confirmBooking\<close> decides: two
  calls that differ only in it fail with the same error or both succeed.  On success the
  booking that is returned and stored carries the caller's tenant id, whatever the tenant
  of the seat is.
\<close>

theorem confirmBooking_ignores_appId:
  "(fst (confirmBooking e s a1 tok pid uid) = Inl err \<longleftrightarrow>
    fst (confirmBooking e s a2 tok pid uid) = Inl err)
   \<and> (fst (confirmBooking e s a1 tok pid uid) = Inr res \<longrightarrow>
        bk_appId (cr_booking res) = a1
      \<and> bookings (snd (confirmBooking e s a1 tok pid uid)) = bookings s @ [cr_booking res])"
proof -
  consider (failed) erra s' where "\<forall>a'. confirmBooking e s a' tok pid uid = (Inl erra, s')"
    | (tx) r seat where
        "\<forall>a'. confirmBooking e s a' tok pid uid = confirmTransaction e s a' tok pid uid r seat"
    using confirmBooking_cases [of e s a1 tok pid uid] by blast
  then show ?thesis
  proof cases
    case failed
    then show ?thesis by simp
  next
    case tx
    then show ?thesis
      using confirmTransaction_error_appId [of e s a1 tok pid uid r seat err a2]
        confirmTransaction_success_appId [of e s a1 tok pid uid r seat res]
      by simp
  qed
qed

text \<open>
  User \<open>U\<close> reserves seat \<open>A1\<close> of the tenant \<^verbatim>\<open>event-app\<close>; the confirmation is then sent
  with the credentials of the tenant \<^verbatim>\<open>bus-app\<close>.  It succeeds, and the booking is recorded
  for \<^verbatim>\<open>bus-app\<close>.
\<close>

theorem confirmBooking_ignores_appId_witness:
  "seat_appId seatA = ''event-app''
   \<and> (\<exists>res. fst (confirmBooking (envAt 60000 tokenV ''0.k3x9q2m7p'' bookingOid True)
                 (run 120 (initial [seatA, seatB]) [Reserve (envAt 0 tokenU ''0.4fzyo82mvyr'' ''65b0000000000000000000ff'' True) ''event-app'' (seat_id seatA) userU])
                 ''bus-app'' tokenU ''PAY-OK-1'' userU) = Inr res
        \<and> bk_seatId (cr_booking res) = seat_id seatA
        \<and> bk_appId (cr_booking res) = ''bus-app'')"
proof -
  let ?c = "confirmBooking (envAt 60000 tokenV ''0.k3x9q2m7p'' bookingOid True)
                 (run 120 (initial [seatA, seatB]) [Reserve (envAt 0 tokenU ''0.4fzyo82mvyr'' ''65b0000000000000000000ff'' True) ''event-app'' (seat_id seatA) userU])
                 ''bus-app'' tokenU ''PAY-OK-1'' userU"
  have "\<exists>res. fst ?c = Inr res \<and> bk_seatId (cr_booking res) = seat_id seatA"
    by (simp add: eval_defs)
  then obtain res where r: "fst ?c = Inr res" "bk_seatId (cr_booking res) = seat_id seatA"
    by blast
  from r(1) confirmBooking_ignores_appId [of _ _ "''bus-app''" _ _ _ _ "''event-app''" res]
  have "bk_appId (cr_booking res) = ''bus-app''" by blast
  with r show ?thesis by (auto simp: seatA_def)
qed

section \<open>Confirming twice\<close>

lemma find_replaceFirst:
  "find P xs = Some x \<Longrightarrow> P y \<Longrightarrow> find P (replaceFirst P y xs) = Some y"
  by (induction xs) (auto split: if_splits)

lemma findReservation_token:
  "findReservation rows tok = Some r \<Longrightarrow> res_reservationToken r = tok"
  by (auto simp: findReservation_def find_Some_iff)

lemma findReservation_save:
  assumes "findReservation rows tok = Some r"
  shows "findReservation (saveReservation rows (r\<lparr>res_status := st\<rparr>)) tok =
           Some (r\<lparr>res_status := st\<rparr>)"
proof -
  have t: "res_reservationToken r = tok"
    using assms by (rule findReservation_token)
  from assms show ?thesis
    unfolding findReservation_def saveReservation_def
    by (simp add: t find_replaceFirst)
qed

lemma confirmTransaction_success_rows:
  "fst (confirmTransaction e s a tok pid uid r seat) = Inr res \<Longrightarrow>
     reservations (snd (confirmTransaction e s a tok pid uid r seat)) =
       saveReservation (reservations s) (r\<lparr>res_status := CONFIRMED\<rparr>)"
  by (auto simp: confirmTransaction_def Let_def split: sum.splits prod.splits if_splits)

lemma confirmBooking_success:
  assumes "fst (confirmBooking e s a tok pid uid) = Inr res"
  shows "\<exists>r seat. findReservation (reservations s) tok = Some r \<and> res_userId r = uid
           \<and> res_status r = ACTIVE
           \<and> findSeatById (seats s) (res_seatId r) = Some seat
           \<and> confirmBooking e s a tok pid uid = confirmTransaction e s a tok pid uid r seat"
  using assms
  by (auto simp: confirmBooking_def Let_def split: option.splits sum.splits prod.splits if_splits)

text \<open>
  C5, as the code has it.  After a confirmation that succeeded, every further confirmation
  of the same reservation token by the same user, with the same payment id or another,
  fails with \<open>ConflictError\<close> (``Reservation is confirmed'') and changes nothing.
\<close>

theorem confirmBooking_twice_conflict:
  assumes "fst (confirmBooking e s a tok pid uid) = Inr res"
  shows "confirmBooking e' (snd (confirmBooking e s a tok pid uid)) a' tok pid' uid =
           (Inl (ConflictError ''Reservation is confirmed''),
            snd (confirmBooking e s a tok pid uid))"
proof -
  from confirmBooking_success [OF assms] obtain r seat where
    f: "findReservation (reservations s) tok = Some r" and u: "res_userId r = uid"
    and eq: "confirmBooking e s a tok pid uid = confirmTransaction e s a tok pid uid r seat"
    by blast
  from assms eq have "fst (confirmTransaction e s a tok pid uid r seat) = Inr res"
    by simp
  from confirmTransaction_success_rows [OF this] eq
  have rows: "reservations (snd (confirmBooking e s a tok pid uid)) =
       saveReservation (reservations s) (r\<lparr>res_status := CONFIRMED\<rparr>)"
    by simp
  have "findReservation (reservations (snd (confirmBooking e s a tok pid uid))) tok =
          Some (r\<lparr>res_status := CONFIRMED\<rparr>)"
    unfolding rows using f by (rule findReservation_save)
  then show ?thesis
    using u by (simp add: confirmBooking_def [of e'])
qed

text \<open>
  User \<open>U\<close> reserves seat \<open>A1\<close> and confirms with the payment id \<^verbatim>\<open>PAY-OK-1\<close>; a minute
  later the confirmation is sent again with another payment id.
\<close>

theorem confirmBooking_twice_conflict_witness:
  "(\<exists>res. fst (confirmBooking (envAt 60000 tokenV ''0.k3x9q2m7p'' bookingOid True)
                (run 120 (initial [seatA, seatB])
                   [Reserve (envAt 0 tokenU ''0.4fzyo82mvyr'' bookingOid True)
                      ''event-app'' (seat_id seatA) userU])
                ''event-app'' tokenU ''PAY-OK-1'' userU) = Inr res)
   \<and> fst (confirmBooking (envAt 120000 tokenV ''0.z81hd03nfa'' bookingOid True)
           (snd (confirmBooking (envAt 60000 tokenV ''0.k3x9q2m7p'' bookingOid True)
                (run 120 (initial [seatA, seatB])
                   [Reserve (envAt 0 tokenU ''0.4fzyo82mvyr'' bookingOid True)
                      ''event-app'' (seat_id seatA) userU])
                ''event-app'' tokenU ''PAY-OK-1'' userU))
           ''event-app'' tokenU ''PAY-OTHER-2'' userU) =
       Inl (ConflictError ''Reservation is confirmed'')"
proof -
  let ?c = "confirmBooking (envAt 60000 tokenV ''0.k3x9q2m7p'' bookingOid True)
                (run 120 (initial [seatA, seatB])
                   [Reserve (envAt 0 tokenU ''0.4fzyo82mvyr'' bookingOid True)
                      ''event-app'' (seat_id seatA) userU])
                ''event-app'' tokenU ''PAY-OK-1'' userU"
  have "\<exists>res. fst ?c = Inr res"
    by (simp add: eval_defs toUpperChar_table)
  then obtain res where r: "fst ?c = Inr res" by blast
  from confirmBooking_twice_conflict [OF r, of "envAt 120000 tokenV ''0.z81hd03nfa'' bookingOid True"
      "''event-app''" "''PAY-OTHER-2''"] r
  show ?thesis by simp
qed

text \<open>
  C5 as stated fails: the second confirmation with the same token and the same payment id
  does not return the booking of the first, it fails with \<open>ConflictError\<close>.
\<close>

theorem confirmBooking_second_call_counterexample:
  "map_sum id cr_bookingId
     (fst (confirmBooking (envAt 60000 tokenV ''0.k3x9q2m7p'' bookingOid True)
                (run 120 (initial [seatA, seatB])
                   [Reserve (envAt 0 tokenU ''0.4fzyo82mvyr'' bookingOid True)
                      ''event-app'' (seat_id seatA) userU])
                ''event-app'' tokenU ''PAY-OK-1'' userU)) = Inr ''BK-20260122-K3X9Q2''
   \<and> fst (confirmBooking (envAt 120000 tokenV ''0.z81hd03nfa'' bookingOid True)
           (snd (confirmBooking (envAt 60000 tokenV ''0.k3x9q2m7p'' bookingOid True)
                (run 120 (initial [seatA, seatB])
                   [Reserve (envAt 0 tokenU ''0.4fzyo82mvyr'' bookingOid True)
                      ''event-app'' (seat_id seatA) userU])
                ''event-app'' tokenU ''PAY-OK-1'' userU))
           ''event-app'' tokenU ''PAY-OK-1'' userU) =
       Inl (ConflictError ''Reservation is confirmed'')"
  by (simp add: eval_defs toUpperChar_table)

section \<open>Booking ids\<close>

lemma digit_not_separator: "isDigitChar c \<Longrightarrow> c \<noteq> CHR ''-'' \<and> c \<noteq> CHR ''T''"
  by (auto simp: isDigitChar_def)

lemma toUpperChar_class:
  "isLowerChar c \<or> isDigitChar c \<Longrightarrow> isUpperDigitChar (toUpperChar c)"
  by (auto simp: toUpperChar_def isUpperDigitChar_def isUpperChar_def isLowerChar_def
      isDigitChar_def)

lemma confirmTransaction_collision:
  assumes "generateBookingId (env_isoDate e) (env_random36 e) \<in> set (map bk_bookingId (bookings s))"
  shows "confirmTransaction e s a tok pid uid r seat =
           (Inl (if env_writesOk e then DuplicateKeyError ''bookingId'' else StoreError), s)"
  using assms by (simp add: confirmTransaction_def insertBooking_def Let_def)

lemma confirmBooking_split:
  "(\<exists>err s'. confirmBooking e s a tok pid uid = (Inl err, s')
       \<and> seats s' = seats s \<and> bookings s' = bookings s)
   \<or> (\<exists>r seat. confirmBooking e s a tok pid uid = confirmTransaction e s a tok pid uid r seat)"
  by (auto simp: confirmBooking_def Let_def split: option.splits sum.splits prod.splits)

text \<open>
  C8, as the code has it.  The id is \<^verbatim>\<open>BK-\<close>, the eight digits of the date of the ISO
  timestamp, a hyphen, and the upper-cased characters at positions 2 to 7 of the random
  base-36 string: capitals and digits, six of them when the string has that many.  Nothing
  is regenerated on a collision: when the generated id is the id of an existing booking,
  the transaction ends with the duplicate-key error of the store and leaves the state as
  it was, and the confirmation fails without changing seats or bookings.
\<close>

theorem bookingId_shape_and_collision:
  "(list_all isDigitChar [y1, y2, y3, y4, m1, m2, d1, d2] \<longrightarrow>
      generateBookingId ([y1, y2, y3, y4, CHR ''-'', m1, m2, CHR ''-'', d1, d2, CHR ''T''] @ rest) r =
        ''BK-'' @ [y1, y2, y3, y4, m1, m2, d1, d2] @ ''-'' @ map toUpperChar (take 6 (drop 2 r)))
   \<and> (list_all (\<lambda>c. isLowerChar c \<or> isDigitChar c) (drop 2 r) \<longrightarrow>
        list_all isUpperDigitChar (map toUpperChar (take 6 (drop 2 r))))
   \<and> (8 \<le> length r \<longrightarrow> length (map toUpperChar (take 6 (drop 2 r))) = 6)
   \<and> (generateBookingId (env_isoDate e) (env_random36 e) \<in> set (map bk_bookingId (bookings s)) \<longrightarrow>
        (env_writesOk e \<longrightarrow>
           confirmTransaction e s a tok pid uid reservation seat =
             (Inl (DuplicateKeyError ''bookingId''), s))
      \<and> (\<exists>err. fst (confirmBooking e s a tok pid uid) = Inl err)
      \<and> seats (snd (confirmBooking e s a tok pid uid)) = seats s
      \<and> bookings (snd (confirmBooking e s a tok pid uid)) = bookings s)"
proof (intro conjI impI)
  assume "list_all isDigitChar [y1, y2, y3, y4, m1, m2, d1, d2]"
  then have "\<forall>c \<in> {y1, y2, y3, y4, m1, m2, d1, d2}. c \<noteq> CHR ''-'' \<and> c \<noteq> CHR ''T''"
    using digit_not_separator by simp
  then show "generateBookingId
       ([y1, y2, y3, y4, CHR ''-'', m1, m2, CHR ''-'', d1, d2, CHR ''T''] @ rest) r =
        ''BK-'' @ [y1, y2, y3, y4, m1, m2, d1, d2] @ ''-'' @ map toUpperChar (take 6 (drop 2 r))"
    by (simp add: generateBookingId_def)
next
  assume "list_all (\<lambda>c. isLowerChar c \<or> isDigitChar c) (drop 2 r)"
  then have "\<forall>c \<in> set (take 6 (drop 2 r)). isLowerChar c \<or> isDigitChar c"
    by (auto simp: list_all_iff dest: in_set_takeD)
  then show "list_all isUpperDigitChar (map toUpperChar (take 6 (drop 2 r)))"
    by (simp add: list_all_iff toUpperChar_class)
next
  assume "8 \<le> length r"
  then show "length (map toUpperChar (take 6 (drop 2 r))) = 6"
    by simp
next
  assume c: "generateBookingId (env_isoDate e) (env_random36 e) \<in> set (map bk_bookingId (bookings s))"
    and "env_writesOk e"
  then show "confirmTransaction e s a tok pid uid reservation seat =
             (Inl (DuplicateKeyError ''bookingId''), s)"
    by (simp add: confirmTransaction_collision)
next
  assume c: "generateBookingId (env_isoDate e) (env_random36 e) \<in> set (map bk_bookingId (bookings s))"
  from confirmBooking_split [of e s a tok pid uid] confirmTransaction_collision [OF c]
  show "\<exists>err. fst (confirmBooking e s a tok pid uid) = Inl err"
    by (elim disjE exE conjE) simp_all
next
  assume c: "generateBookingId (env_isoDate e) (env_random36 e) \<in> set (map bk_bookingId (bookings s))"
  from confirmBooking_split [of e s a tok pid uid] confirmTransaction_collision [OF c]
  show "seats (snd (confirmBooking e s a tok pid uid)) = seats s"
    by (elim disjE exE conjE) simp_all
next
  assume c: "generateBookingId (env_isoDate e) (env_random36 e) \<in> set (map bk_bookingId (bookings s))"
  from confirmBooking_split [of e s a tok pid uid] confirmTransaction_collision [OF c]
  show "bookings (snd (confirmBooking e s a tok pid uid)) = bookings s"
    by (elim disjE exE conjE) simp_all
qed

lemma historyAB_bookings:
  "map bk_bookingId (bookings (run 120 (initial [seatA, seatB]) historyAB)) =
     [''BK-20260122-K3X9Q2'']"
  by (simp add: historyAB_def eval_defs toUpperChar_table)

text \<open>The second confirmation of the day draws the random digits of the first.\<close>

theorem bookingId_shape_and_collision_witness:
  "generateBookingId ''2026-01-22T10:00:00.000Z'' ''0.k3x9q2zz81'' = ''BK-20260122-K3X9Q2''
   \<and> (\<exists>err. fst (confirmBooking envCollide (run 120 (initial [seatA, seatB]) historyAB)
                    ''event-app'' tokenV ''PAY-OK-2'' userV) = Inl err)
   \<and> map bk_bookingId (bookings (snd (confirmBooking envCollide
           (run 120 (initial [seatA, seatB]) historyAB)
           ''event-app'' tokenV ''PAY-OK-2'' userV))) = [''BK-20260122-K3X9Q2'']"
proof -
  let ?s = "run 120 (initial [seatA, seatB]) historyAB"
  have d: "list_all isDigitChar [CHR ''2'', CHR ''0'', CHR ''2'', CHR ''6'', CHR ''0'', CHR ''1'',
             CHR ''2'', CHR ''2'']"
    by (simp add: isDigitChar_def)
  have g: "generateBookingId ''2026-01-22T10:00:00.000Z'' ''0.k3x9q2zz81'' = ''BK-20260122-K3X9Q2''"
    using d bookingId_shape_and_collision [of "CHR ''2''" "CHR ''0''" "CHR ''2''" "CHR ''6''"
        "CHR ''0''" "CHR ''1''" "CHR ''2''" "CHR ''2''" "''10:00:00.000Z''" "''0.k3x9q2zz81''"]
    by (simp add: toUpperChar_table)
  have c: "generateBookingId (env_isoDate envCollide) (env_random36 envCollide)
             \<in> set (map bk_bookingId (bookings ?s))"
    by (simp add: historyAB_bookings) (simp add: envCollide_def envAt_def g)
  from c bookingId_shape_and_collision [of _ _ _ _ _ _ _ _ _ _ envCollide ?s
      "''event-app''" tokenV "''PAY-OK-2''" userV]
  have "(\<exists>err. fst (confirmBooking envCollide ?s ''event-app'' tokenV ''PAY-OK-2'' userV) = Inl err)
      \<and> bookings (snd (confirmBooking envCollide ?s ''event-app'' tokenV ''PAY-OK-2'' userV)) =
          bookings ?s"
    by blast
  with g show ?thesis by (simp add: historyAB_bookings)
qed

text \<open>
  C8 as stated fails: the confirmation of seat \<open>A2\<close> draws an id that exists, and instead of
  drawing another it fails with the duplicate-key error; no second booking is made.
\<close>

theorem bookingId_collision_counterexample:
  "fst (confirmBooking envCollide (run 120 (initial [seatA, seatB]) historyAB)
          ''event-app'' tokenV ''PAY-OK-2'' userV) = Inl (DuplicateKeyError ''bookingId'')
   \<and> map bk_bookingId (bookings (snd (confirmBooking envCollide
           (run 120 (initial [seatA, seatB]) historyAB)
           ''event-app'' tokenV ''PAY-OK-2'' userV))) = [''BK-20260122-K3X9Q2'']"
  by (simp add: historyAB_def envCollide_def eval_defs toUpperChar_table)

section \<open>Shape of the state after an operation\<close>

lemma releaseLock_store:
  "releaseLock st sid tok = Inr (b, st') \<Longrightarrow> st' = filter (\<lambda>kv. fst kv \<noteq> getLockKey sid) st"
  by (auto simp: releaseLock_def redis_del_def Let_def split: if_splits)

lemma acquireLock_store:
  "acquireLock ttl now uuid st sid uid = Inr (ld, st') \<Longrightarrow>
     getLockKey sid \<notin> set (map fst st) \<and>
     ld_reservationToken ld = uuid \<and>
     (\<exists>v. st' = st @ [(getLockKey sid, v)])"
  by (auto simp: acquireLock_def redis_set_nx_def Let_def split: if_splits option.splits)

lemma key_in_image: "(k, v) \<in> set xs \<Longrightarrow> k \<in> fst ` set xs"
  by force

lemma reserveSeat_redis:
  "redis (snd (reserveSeat ttl e s a sid uid)) = redis s
   \<or> (getLockKey sid \<notin> set (map fst (redis s))
        \<and> (\<exists>v. redis (snd (reserveSeat ttl e s a sid uid)) = redis s @ [(getLockKey sid, v)]))"
  by (auto simp: reserveSeat_def Let_def dest!: acquireLock_store dest: key_in_image
      split: option.splits sum.splits prod.splits)

lemma reserveSeat_rows:
  "reservations (snd (reserveSeat ttl e s a sid uid)) = reservations s
   \<or> (\<exists>r. res_reservationToken r \<notin> set (map res_reservationToken (reservations s))
        \<and> reservations (snd (reserveSeat ttl e s a sid uid)) = reservations s @ [r])"
  by (auto simp: reserveSeat_def insertReservation_def Let_def
      split: option.splits sum.splits prod.splits if_splits)

lemma confirmTransaction_redis:
  "redis (snd (confirmTransaction e s a tok pid uid r seat)) = redis s
   \<or> (\<exists>k. redis (snd (confirmTransaction e s a tok pid uid r seat)) =
             filter (\<lambda>kv. fst kv \<noteq> k) (redis s))"
  by (auto simp: confirmTransaction_def Let_def dest!: releaseLock_store
      split: sum.splits prod.splits)

lemma confirmTransaction_rows:
  "reservations (snd (confirmTransaction e s a tok pid uid r seat)) = reservations s
   \<or> reservations (snd (confirmTransaction e s a tok pid uid r seat)) =
        saveReservation (reservations s) (r\<lparr>res_status := CONFIRMED\<rparr>)"
  by (auto simp: confirmTransaction_def Let_def split: sum.splits prod.splits)

lemma confirmBooking_shape:
  "(\<exists>err. confirmBooking e s a tok pid uid = (Inl err, s))
   \<or> (\<exists>err r k. findReservation (reservations s) tok = Some r \<and> res_status r = ACTIVE
        \<and> confirmBooking e s a tok pid uid =
            (Inl err, s\<lparr>reservations := saveReservation (reservations s) (r\<lparr>res_status := EXPIRED\<rparr>),
                        redis := filter (\<lambda>kv. fst kv \<noteq> k) (redis s)\<rparr>))
   \<or> (\<exists>r seat. findReservation (reservations s) tok = Some r \<and> res_status r = ACTIVE
        \<and> confirmBooking e s a tok pid uid = confirmTransaction e s a tok pid uid r seat)"
  by (auto simp: confirmBooking_def releaseLock_def redis_del_def Let_def
      split: option.splits sum.splits prod.splits)

lemma confirmBooking_redis:
  "redis (snd (confirmBooking e s a tok pid uid)) = redis s
   \<or> (\<exists>k. redis (snd (confirmBooking e s a tok pid uid)) = filter (\<lambda>kv. fst kv \<noteq> k) (redis s))"
  using confirmBooking_shape [of e s a tok pid uid]
    confirmTransaction_redis [of e s a tok pid uid]
  by (elim disjE exE conjE) (simp, force, metis)

lemma confirmBooking_rows:
  "reservations (snd (confirmBooking e s a tok pid uid)) = reservations s
   \<or> (\<exists>r st. findReservation (reservations s) tok = Some r \<and> res_status r = ACTIVE
        \<and> reservations (snd (confirmBooking e s a tok pid uid)) =
            saveReservation (reservations s) (r\<lparr>res_status := st\<rparr>))"
  using confirmBooking_shape [of e s a tok pid uid]
    confirmTransaction_rows [of e s a tok pid uid]
  by (elim disjE exE conjE) (simp, force, metis)

lemma releaseSeat_redis:
  "redis (snd (releaseSeat e s tok uid)) = redis s
   \<or> (\<exists>k. redis (snd (releaseSeat e s tok uid)) = filter (\<lambda>kv. fst kv \<noteq> k) (redis s))"
  by (auto simp: releaseSeat_def Let_def dest!: releaseLock_store
      split: option.splits sum.splits prod.splits)

lemma releaseSeat_rows:
  "reservations (snd (releaseSeat e s tok uid)) = reservations s
   \<or> (\<exists>r. findReservation (reservations s) tok = Some r \<and> res_status r \<noteq> CONFIRMED
        \<and> reservations (snd (releaseSeat e s tok uid)) =
            saveReservation (reservations s) (r\<lparr>res_status := RELEASED\<rparr>))"
  by (auto simp: releaseSeat_def Let_def split: option.splits sum.splits prod.splits)

lemma expireLock_redis:
  "redis (expireLock now s sid) = redis s
   \<or> (\<exists>k. redis (expireLock now s sid) = filter (\<lambda>kv. fst kv \<noteq> k) (redis s))"
  by (auto simp: expireLock_def redis_del_def split: option.splits)

lemma expireLock_rows: "reservations (expireLock now s sid) = reservations s"
  by (simp add: expireLock_def split: option.splits)

lemma step_redis:
  "redis (step ttl s ev) = redis s
   \<or> (\<exists>k. redis (step ttl s ev) = filter (\<lambda>kv. fst kv \<noteq> k) (redis s))
   \<or> (\<exists>k v. k \<notin> set (map fst (redis s)) \<and> redis (step ttl s ev) = redis s @ [(k, v)])"
proof (cases ev)
  case (Reserve e a sid uid)
  then show ?thesis using reserveSeat_redis [of ttl e s a sid uid] by auto
next
  case (Confirm e a tok pid uid)
  then show ?thesis using confirmBooking_redis [of e s a tok pid uid] by auto
next
  case (Release e tok uid)
  then show ?thesis using releaseSeat_redis [of e s tok uid] by auto
next
  case (Expire now sid)
  then show ?thesis using expireLock_redis [of now s sid] by auto
qed

lemma step_rows:
  "reservations (step ttl s ev) = reservations s
   \<or> (\<exists>r. res_reservationToken r \<notin> set (map res_reservationToken (reservations s))
        \<and> reservations (step ttl s ev) = reservations s @ [r])
   \<or> (\<exists>r tok st. findReservation (reservations s) tok = Some r
        \<and> statusMove (res_status r) st
        \<and> reservations (step ttl s ev) =
            saveReservation (reservations s) (r\<lparr>res_status := st\<rparr>))"
proof (cases ev)
  case (Reserve e a sid uid)
  then show ?thesis using reserveSeat_rows [of ttl e s a sid uid] by auto
next
  case (Confirm e a tok pid uid)
  from confirmBooking_rows [of e s a tok pid uid] show ?thesis
  proof (elim disjE exE conjE)
    assume "reservations (snd (confirmBooking e s a tok pid uid)) = reservations s"
    with Confirm show ?thesis by simp
  next
    fix r st
    assume "findReservation (reservations s) tok = Some r" "res_status r = ACTIVE"
      "reservations (snd (confirmBooking e s a tok pid uid)) =
            saveReservation (reservations s) (r\<lparr>res_status := st\<rparr>)"
    moreover from this have "statusMove (res_status r) st" by simp
    ultimately have "\<exists>r t st. findReservation (reservations s) t = Some r
        \<and> statusMove (res_status r) st
        \<and> reservations (snd (confirmBooking e s a tok pid uid)) =
            saveReservation (reservations s) (r\<lparr>res_status := st\<rparr>)"
      by blast
    then show ?thesis unfolding Confirm step.simps by blast
  qed
next
  case (Release e tok uid)
  from releaseSeat_rows [of e s tok uid] show ?thesis
  proof (elim disjE exE conjE)
    assume "reservations (snd (releaseSeat e s tok uid)) = reservations s"
    with Release show ?thesis by simp
  next
    fix r
    assume "findReservation (reservations s) tok = Some r" "res_status r \<noteq> CONFIRMED"
      "reservations (snd (releaseSeat e s tok uid)) =
            saveReservation (reservations s) (r\<lparr>res_status := RELEASED\<rparr>)"
    moreover from this have "statusMove (res_status r) RELEASED"
      by (cases "res_status r") simp_all
    ultimately have "\<exists>r t st. findReservation (reservations s) t = Some r
        \<and> statusMove (res_status r) st
        \<and> reservations (snd (releaseSeat e s tok uid)) =
            saveReservation (reservations s) (r\<lparr>res_status := st\<rparr>)"
      by blast
    then show ?thesis unfolding Release step.simps by blast
  qed
next
  case (Expire now sid)
  then show ?thesis by (simp add: expireLock_rows)
qed

section \<open>One lock for each seat\<close>

lemma map_replaceFirst:
  "(\<And>x. P x \<Longrightarrow> f x = f y) \<Longrightarrow> map f (replaceFirst P y xs) = map f xs"
  by (induction xs) auto

lemma saveReservation_tokens:
  "map res_reservationToken (saveReservation rows r) = map res_reservationToken rows"
  unfolding saveReservation_def by (rule map_replaceFirst) simp

lemma step_storeInv: "storeInv s \<Longrightarrow> storeInv (step ttl s ev)"
proof -
  assume inv: "storeInv s"
  from step_redis [of ttl s ev] inv have 1: "distinct (map fst (redis (step ttl s ev)))"
    by (elim disjE exE conjE) (auto simp: storeInv_def distinct_map_filter)
  from step_rows [of ttl s ev] inv
  have 2: "distinct (map res_reservationToken (reservations (step ttl s ev)))"
    by (elim disjE exE conjE) (auto simp: storeInv_def saveReservation_tokens)
  from 1 2 show ?thesis by (simp add: storeInv_def)
qed

lemma run_storeInv: "storeInv s \<Longrightarrow> storeInv (run ttl s es)"
  unfolding run_def by (induction es arbitrary: s) (simp_all add: step_storeInv)

lemma initial_storeInv: "storeInv (initial ss)"
  by (simp add: storeInv_def initial_def)

lemma distinct_key_once:
  "distinct (map f xs) \<Longrightarrow> length (filter (\<lambda>x. f x = k) xs) \<le> 1"
proof (induction xs)
  case Nil
  then show ?case by simp
next
  case (Cons x xs)
  show ?case
  proof (cases "f x = k")
    case True
    from Cons.prems have "f x \<notin> f ` set xs" by simp
    with True have "\<forall>y \<in> set xs. f y \<noteq> k" by blast
    then have "filter (\<lambda>x. f x = k) xs = []" by (simp add: filter_empty_conv)
    with True show ?thesis by simp
  next
    case False
    with Cons show ?thesis by simp
  qed
qed

lemma length_filter_mono:
  "(\<And>x. x \<in> set xs \<Longrightarrow> P x \<Longrightarrow> Q x) \<Longrightarrow> length (filter P xs) \<le> length (filter Q xs)"
  by (induction xs) auto

lemma storeInv_one_lock: "storeInv s \<Longrightarrow> locksOf (redis s) seatId \<le> 1"
  unfolding locksOf_def storeInv_def
  using distinct_key_once [of fst "redis s" "getLockKey seatId"] by simp

lemma storeInv_one_holder:
  assumes "storeInv s"
  shows "length (lockedActiveReservations s seatId) \<le> 1"
proof (cases "getLock (redis s) seatId")
  case None
  then have "lockedActiveReservations s seatId = []"
    by (simp add: lockedActiveReservations_def holdsLock_def filter_empty_conv)
  then show ?thesis by simp
next
  case (Some l)
  have "length (lockedActiveReservations s seatId) \<le>
      length (filter (\<lambda>r. res_reservationToken r = lock_reservationToken l) (reservations s))"
    unfolding lockedActiveReservations_def
    by (rule length_filter_mono) (simp add: holdsLock_def Some)
  also have "\<dots> \<le> 1"
    using assms distinct_key_once [of res_reservationToken "reservations s" "lock_reservationToken l"]
    by (simp add: storeInv_def)
  finally show ?thesis .
qed

subsection \<open>A key that holds a lock refuses a reserve\<close>

lemma acquireLock_locked:
  assumes "getLock store seatId = Some l"
  shows "\<exists>err. acquireLock ttl now uuid store seatId userId = Inl err"
proof -
  from assms getLock_None_iff [of store seatId]
  have "getLockKey seatId \<in> set (map fst store)" by auto
  then show ?thesis
    by (simp add: acquireLock_def redis_set_nx_def Let_def)
qed

lemma reserveSeat_locked:
  assumes "getLock (redis s) seatId = Some l"
  shows "\<exists>err. reserveSeat ttl e s appId seatId userId = (Inl err, s)"
proof -
  from acquireLock_locked [OF assms] obtain err where
    "acquireLock ttl (env_now e) (env_uuid e) (redis s) seatId userId = Inl err"
    by blast
  then show ?thesis
    by (simp add: reserveSeat_def split: option.splits)
qed

lemma reserveSeat_success:
  assumes "fst (reserveSeat ttl e s appId seatId userId) = Inr res"
  shows "getLock (redis s) seatId = None
       \<and> (\<exists>l'. getLock (redis (snd (reserveSeat ttl e s appId seatId userId))) seatId = Some l'
             \<and> lock_reservationToken l' = rr_reservationToken res \<and> lock_userId l' = userId)
       \<and> (\<exists>r. reservations (snd (reserveSeat ttl e s appId seatId userId)) = reservations s @ [r]
             \<and> res_reservationToken r = rr_reservationToken res \<and> res_status r = ACTIVE)"
proof (cases "castObjectId seatId")
  case None
  with assms show ?thesis by (simp add: reserveSeat_def)
next
  case c: (Some oid)
  show ?thesis
  proof (cases "findSeatById (seats s) oid")
    case None
    with c assms show ?thesis by (simp add: reserveSeat_def)
  next
    case (Some seat)
    show ?thesis
    proof (cases "seat_appId seat \<noteq> appId \<or> seat_status seat \<noteq> AVAILABLE")
      case True
      with c Some assms show ?thesis by (auto simp: reserveSeat_def split: if_splits)
    next
      case False
      then have ok: "seat_appId seat = appId" "seat_status seat = AVAILABLE" by auto
      show ?thesis
      proof (cases "acquireLock ttl (env_now e) (env_uuid e) (redis s) seatId userId")
        case (Inl a)
        with assms show ?thesis by (simp add: reserveSeat_def c Some ok)
      next
        case (Inr p)
        obtain ld store' where p: "p = (ld, store')" by (cases p)
        note acq = acquireLock_Inr [OF Inr [unfolded p]]
        show ?thesis
        proof (cases "env_writesOk e \<and> ld_reservationToken ld \<notin> set (map res_reservationToken (reservations s))")
          case False
          then have "\<exists>err. fst (reserveSeat ttl e s appId seatId userId) = Inl err"
            by (auto simp: reserveSeat_def c Some ok Inr p insertReservation_def Let_def)
          with assms show ?thesis by auto
        next
          case True
          then have eq: "reserveSeat ttl e s appId seatId userId =
              (Inr \<lparr>rr_reservationToken = ld_reservationToken ld,
                     rr_expiresAt = ld_expiresAt ld,
                     rr_seat_id = seat_id seat,
                     rr_seatNumber = seat_seatNumber seat,
                     rr_price = seat_price seat,
                     rr_entityId = seat_entityId seat,
                     rr_ttl = ld_ttl ld\<rparr>,
               s\<lparr>redis := store',
                  reservations := reservations s @
                    [\<lparr>res_reservationToken = ld_reservationToken ld,
                      res_userId = userId, res_appId = appId, res_seatId = oid,
                      res_status = ACTIVE, res_expiresAt = ld_expiresAt ld,
                      res_seatNumber = seat_seatNumber seat, res_price = seat_price seat,
                      res_entityId = seat_entityId seat\<rparr>]\<rparr>)"
            by (simp add: reserveSeat_def c Some ok Inr p insertReservation_def Let_def)
          with assms have r: "rr_reservationToken res = ld_reservationToken ld" by auto
          from eq acq r show ?thesis by simp
        qed
      qed
    qed
  qed
qed

subsection \<open>What can take a lock away\<close>

lemma getLock_append:
  "getLock store seatId = Some l \<Longrightarrow> getLock (store @ [(k, v)]) seatId = Some l"
  by (simp add: getLock_def redis_get_def map_add_def)

lemma getLock_filter_other:
  "k \<noteq> getLockKey seatId \<Longrightarrow>
     getLock (filter (\<lambda>kv. fst kv \<noteq> k) store) seatId = getLock store seatId"
  using redis_del_other [of "getLockKey seatId" k store]
  by (simp add: getLock_def redis_del_def)

lemma findSeatById_id: "findSeatById rows oid = Some seat \<Longrightarrow> seat_id seat = oid"
  by (auto simp: findSeatById_def find_Some_iff)

lemma releaseLock_other_seat:
  assumes "releaseLock store sid tok = Inr (b, store')" and "sid \<noteq> seatId"
  shows "getLock store' seatId = getLock store seatId"
  using releaseLock_store [OF assms(1)] assms(2)
  by (simp add: getLock_filter_other getLockKey_inj)

lemma releaseLock_other_token:
  assumes "getLock store seatId = Some l" and "tok \<noteq> []"
    and "lock_reservationToken l \<noteq> tok"
    and "releaseLock store sid (Some tok) = Inr (b, store')"
  shows "getLock store' seatId = Some l"
proof (cases "sid = seatId")
  case True
  with assms show ?thesis by (simp add: releaseLock_def)
next
  case False
  with assms(1) releaseLock_other_seat [OF assms(4)] show ?thesis by simp
qed

lemma reserve_keeps_lock:
  assumes "getLock (redis s) seatId = Some l"
  shows "getLock (redis (snd (reserveSeat ttl e s a sid uid))) seatId = Some l"
  using reserveSeat_redis [of ttl e s a sid uid] assms
  by (elim disjE exE conjE) (simp_all add: getLock_append)

lemma expire_keeps_lock:
  assumes "getLock (redis s) seatId = Some l"
    and "\<not> (sid = seatId \<and> lock_expiresAt l \<le> now)"
  shows "getLock (redis (expireLock now s sid)) seatId = Some l"
proof (cases "sid = seatId")
  case True
  with assms show ?thesis by (simp add: expireLock_def)
next
  case False
  then have "getLockKey sid \<noteq> getLockKey seatId" by (simp add: getLockKey_inj)
  with assms(1) show ?thesis
    by (simp add: expireLock_def redis_del_def getLock_filter_other split: option.splits)
qed

lemma releaseSeat_redis_key:
  "redis (snd (releaseSeat e s tok uid)) = redis s
   \<or> (\<exists>r b. findReservation (reservations s) tok = Some r
         \<and> releaseLock (redis s) (res_seatId r) (Some tok) =
             Inr (b, redis (snd (releaseSeat e s tok uid))))"
proof (cases "findReservation (reservations s) tok")
  case None
  then show ?thesis by (simp add: releaseSeat_def)
next
  case (Some r)
  show ?thesis
  proof (cases "res_userId r \<noteq> uid \<or> res_status r = CONFIRMED")
    case True
    with Some show ?thesis by (auto simp: releaseSeat_def)
  next
    case False
    then have ok: "res_userId r = uid" "res_status r \<noteq> CONFIRMED" by auto
    show ?thesis
    proof (cases "releaseLock (redis s) (res_seatId r) (Some tok)")
      case (Inl err)
      with Some ok show ?thesis by (simp add: releaseSeat_def)
    next
      case (Inr p)
      obtain b store' where p: "p = (b, store')" by (cases p)
      from Some ok Inr p have "redis (snd (releaseSeat e s tok uid)) = store'"
        by (simp add: releaseSeat_def Let_def)
      with Some Inr p show ?thesis by simp
    qed
  qed
qed

lemma release_keeps_lock:
  assumes "getLock (redis s) seatId = Some l"
    and "tok \<noteq> []" and "tok \<noteq> lock_reservationToken l"
  shows "getLock (redis (snd (releaseSeat e s tok uid))) seatId = Some l"
  using releaseSeat_redis_key [of e s tok uid]
proof (elim disjE exE conjE)
  assume "redis (snd (releaseSeat e s tok uid)) = redis s"
  with assms(1) show ?thesis by simp
next
  fix r :: reservation and b
  assume rl: "releaseLock (redis s) (res_seatId r) (Some tok) =
             Inr (b, redis (snd (releaseSeat e s tok uid)))"
  from assms(3) have ne: "lock_reservationToken l \<noteq> tok" by simp
  show ?thesis
    by (rule releaseLock_other_token [OF assms(1) assms(2) ne rl])
qed

lemma confirmTransaction_redis_key:
  "redis (snd (confirmTransaction e s a tok pid uid r seat)) = redis s
   \<or> (\<exists>b. releaseLock (redis s) (seat_id seat) (Some tok) =
             Inr (b, redis (snd (confirmTransaction e s a tok pid uid r seat))))"
proof (cases "env_writesOk e")
  case False
  then show ?thesis by (simp add: confirmTransaction_def Let_def)
next
  case w: True
  let ?booking = "\<lparr>bk_id = env_objectId e,
      bk_bookingId = generateBookingId (env_isoDate e) (env_random36 e), bk_userId = uid,
      bk_appId = a, bk_seatId = seat_id seat,
      bk_reservationToken = tok, bk_paymentStatus = SUCCESS,
      bk_paymentId = pid, bk_amount = seat_price seat,
      bk_currency = ''USD'', bk_bookingDate = env_now e,
      bk_seatNumber = seat_seatNumber seat, bk_entityId = seat_entityId seat,
      bk_domain = seat_domain seat\<rparr>"
  show ?thesis
  proof (cases "insertBooking (bookings s) ?booking")
    case (Inl err)
    with w show ?thesis by (simp add: confirmTransaction_def Let_def)
  next
    case ib: (Inr rows)
    show ?thesis
    proof (cases "releaseLock (redis s) (seat_id seat) (Some tok)")
      case (Inl err)
      with w ib show ?thesis by (simp add: confirmTransaction_def Let_def)
    next
      case (Inr p)
      obtain b store' where p: "p = (b, store')" by (cases p)
      from w ib Inr p have "redis (snd (confirmTransaction e s a tok pid uid r seat)) = store'"
        by (simp add: confirmTransaction_def Let_def)
      with Inr p show ?thesis by simp
    qed
  qed
qed

lemma confirmBooking_paths:
  "(\<exists>err. confirmBooking e s a tok pid uid = (Inl err, s))
   \<or> (\<exists>r. findReservation (reservations s) tok = Some r \<and> isExpired (env_now e) r
        \<and> redis (snd (confirmBooking e s a tok pid uid)) =
            filter (\<lambda>kv. fst kv \<noteq> getLockKey (res_seatId r)) (redis s))
   \<or> (\<exists>r seat. findReservation (reservations s) tok = Some r
        \<and> verifyLock (env_now e) (redis s) (res_seatId r) tok uid
        \<and> findSeatById (seats s) (res_seatId r) = Some seat
        \<and> confirmBooking e s a tok pid uid = confirmTransaction e s a tok pid uid r seat)"
proof (cases "findReservation (reservations s) tok")
  case None
  then show ?thesis by (simp add: confirmBooking_def)
next
  case (Some r)
  show ?thesis
  proof (cases "res_userId r \<noteq> uid \<or> res_status r \<noteq> ACTIVE")
    case True
    with Some show ?thesis by (auto simp: confirmBooking_def)
  next
    case False
    then have ok: "res_userId r = uid" "res_status r = ACTIVE" by auto
    show ?thesis
    proof (cases "isExpired (env_now e) r")
      case True
      show ?thesis
      proof (cases "env_writesOk e")
        case False
        with Some ok True show ?thesis by (simp add: confirmBooking_def)
      next
        case w: True
        with Some ok True have "redis (snd (confirmBooking e s a tok pid uid)) =
            filter (\<lambda>kv. fst kv \<noteq> getLockKey (res_seatId r)) (redis s)"
          by (simp add: confirmBooking_def releaseLock_def redis_del_def Let_def)
        with Some True show ?thesis by blast
      qed
    next
      case ne: False
      show ?thesis
      proof (cases "verifyLock (env_now e) (redis s) (res_seatId r) tok uid")
        case False
        with Some ok ne show ?thesis by (simp add: confirmBooking_def)
      next
        case v: True
        show ?thesis
        proof (cases "findSeatById (seats s) (res_seatId r)")
          case None
          with Some ok ne v show ?thesis by (simp add: confirmBooking_def)
        next
          case st: (Some seat)
          show ?thesis
          proof (cases "seat_status seat \<noteq> AVAILABLE \<or> isl (verifyPayment (env_isoDate e) pid)")
            case True
            with Some ok ne v st show ?thesis
              by (auto simp: confirmBooking_def isl_def split: sum.splits)
          next
            case False
            with Some ok ne v st have
              "confirmBooking e s a tok pid uid = confirmTransaction e s a tok pid uid r seat"
              by (auto simp: confirmBooking_def isl_def split: sum.splits)
            with Some v st show ?thesis by blast
          qed
        qed
      qed
    qed
  qed
qed

lemma confirm_keeps_lock:
  assumes l: "getLock (redis s) seatId = Some l"
    and t: "tok \<noteq> lock_reservationToken l"
    and x: "\<And>r. findReservation (reservations s) tok = Some r \<Longrightarrow>
              \<not> (res_seatId r = seatId \<and> isExpired (env_now e) r)"
  shows "getLock (redis (snd (confirmBooking e s a tok pid uid))) seatId = Some l"
  using confirmBooking_paths [of e s a tok pid uid]
proof (elim disjE exE conjE)
  fix err assume "confirmBooking e s a tok pid uid = (Inl err, s)"
  with l show ?thesis by simp
next
  fix r
  assume f: "findReservation (reservations s) tok = Some r" and e: "isExpired (env_now e) r"
    and eq: "redis (snd (confirmBooking e s a tok pid uid)) =
            filter (\<lambda>kv. fst kv \<noteq> getLockKey (res_seatId r)) (redis s)"
  from x [OF f] e have "res_seatId r \<noteq> seatId" by simp
  then have "getLockKey (res_seatId r) \<noteq> getLockKey seatId" by (simp add: getLockKey_inj)
  with l eq show ?thesis by (simp add: getLock_filter_other)
next
  fix r seat
  assume f: "findReservation (reservations s) tok = Some r"
    and v: "verifyLock (env_now e) (redis s) (res_seatId r) tok uid"
    and fs: "findSeatById (seats s) (res_seatId r) = Some seat"
    and eq: "confirmBooking e s a tok pid uid = confirmTransaction e s a tok pid uid r seat"
  have ne: "res_seatId r \<noteq> seatId"
  proof
    assume "res_seatId r = seatId"
    with v l have "lock_reservationToken l = tok" by (simp add: verifyLock_def)
    with t show False by simp
  qed
  have sid: "seat_id seat = res_seatId r" using fs by (rule findSeatById_id)
  from confirmTransaction_redis_key [of e s a tok pid uid r seat] show ?thesis
  proof (elim disjE exE)
    assume "redis (snd (confirmTransaction e s a tok pid uid r seat)) = redis s"
    with l eq show ?thesis by simp
  next
    fix b
    assume "releaseLock (redis s) (seat_id seat) (Some tok) =
             Inr (b, redis (snd (confirmTransaction e s a tok pid uid r seat)))"
    from releaseLock_other_seat [OF this, of seatId] sid ne l eq show ?thesis by simp
  qed
qed

lemma step_keeps_lock:
  assumes "getLock (redis s) seatId = Some l" and "\<not> lockRemover s seatId l ev"
  shows "getLock (redis (step ttl s ev)) seatId = Some l"
proof (cases ev)
  case (Reserve e a sid uid)
  with assms(1) show ?thesis by (simp add: reserve_keeps_lock)
next
  case (Confirm e a tok pid uid)
  with assms(2) have t: "tok \<noteq> lock_reservationToken l"
    and x: "\<And>r. findReservation (reservations s) tok = Some r \<Longrightarrow>
              \<not> (res_seatId r = seatId \<and> isExpired (env_now e) r)"
    by (auto split: option.splits)
  from confirm_keeps_lock [OF assms(1) t x] Confirm show ?thesis by simp
next
  case (Release e tok uid)
  with assms show ?thesis by (simp add: release_keeps_lock)
next
  case (Expire now sid)
  with assms show ?thesis by (simp add: expire_keeps_lock)
qed

text \<open>
  C2, as the code has it.  The lock of a seat is kept under the key of the seat id as the
  request writes it.  In every state that a history of reserve, confirm, release and
  lock-expiry steps reaches from the initial state, such a key holds at most one lock, and
  at most one \<open>ACTIVE\<close> reservation holds that lock.  A reserve on a key that holds a lock
  fails and changes nothing.  A reserve that succeeds found the key free, and leaves under
  it a lock with the token of the one \<open>ACTIVE\<close> reservation it adds.  A lock stays where it
  is under every step other than the end of its time to live, a release or a confirmation
  that names its token, and a confirmation of an expired reservation of the same seat.
\<close>

theorem lock_of_key_exclusive:
  "(locksOf (redis (run ttl (initial ss) es)) seatId \<le> 1
      \<and> length (lockedActiveReservations (run ttl (initial ss) es) seatId) \<le> 1)
   \<and> (getLock (redis s) seatId = Some l \<longrightarrow>
        (\<exists>err. reserveSeat ttl e s appId seatId userId = (Inl err, s)))
   \<and> (fst (reserveSeat ttl e s appId seatId userId) = Inr res \<longrightarrow>
        getLock (redis s) seatId = None
      \<and> (\<exists>l'. getLock (redis (snd (reserveSeat ttl e s appId seatId userId))) seatId = Some l'
             \<and> lock_reservationToken l' = rr_reservationToken res \<and> lock_userId l' = userId)
      \<and> (\<exists>r. reservations (snd (reserveSeat ttl e s appId seatId userId)) = reservations s @ [r]
             \<and> res_reservationToken r = rr_reservationToken res \<and> res_status r = ACTIVE))
   \<and> (getLock (redis s) seatId = Some l \<and> \<not> lockRemover s seatId l ev \<longrightarrow>
        getLock (redis (step ttl s ev)) seatId = Some l)"
proof (intro conjI impI)
  have inv: "storeInv (run ttl (initial ss) es)"
    by (rule run_storeInv) (rule initial_storeInv)
  show "locksOf (redis (run ttl (initial ss) es)) seatId \<le> 1"
    by (rule storeInv_one_lock [OF inv])
  show "length (lockedActiveReservations (run ttl (initial ss) es) seatId) \<le> 1"
    by (rule storeInv_one_holder [OF inv])
next
  assume "getLock (redis s) seatId = Some l"
  then show "\<exists>err. reserveSeat ttl e s appId seatId userId = (Inl err, s)"
    by (rule reserveSeat_locked)
next
  assume a: "fst (reserveSeat ttl e s appId seatId userId) = Inr res"
  from reserveSeat_success [OF a] show "getLock (redis s) seatId = None" by simp
  from reserveSeat_success [OF a]
  show "\<exists>l'. getLock (redis (snd (reserveSeat ttl e s appId seatId userId))) seatId = Some l'
             \<and> lock_reservationToken l' = rr_reservationToken res \<and> lock_userId l' = userId"
    by simp
  from reserveSeat_success [OF a]
  show "\<exists>r. reservations (snd (reserveSeat ttl e s appId seatId userId)) = reservations s @ [r]
             \<and> res_reservationToken r = rr_reservationToken res \<and> res_status r = ACTIVE"
    by simp
next
  assume "getLock (redis s) seatId = Some l \<and> \<not> lockRemover s seatId l ev"
  then show "getLock (redis (step ttl s ev)) seatId = Some l"
    by (simp add: step_keeps_lock)
qed

text \<open>
  User \<open>U\<close> holds the lock of seat \<open>A1\<close>.  A reserve of the seat by user \<open>V\<close> a second later
  fails and changes nothing, and the lock is still there after a minute.  The reserve of
  user \<open>U\<close> itself found the key free.
\<close>

theorem lock_of_key_exclusive_witness:
  "getLock (redis (run 120 (initial [seatA, seatB]) (take 1 historyExpiry))) (seat_id seatA) =
     Some lockOfU
   \<and> (\<exists>err. reserveSeat 120 (envAt 1000 tokenV ''0.k3x9q2m7p'' bookingOid True)
               (run 120 (initial [seatA, seatB]) (take 1 historyExpiry))
               ''event-app'' (seat_id seatA) userV =
             (Inl err, run 120 (initial [seatA, seatB]) (take 1 historyExpiry)))
   \<and> getLock (redis (step 120 (run 120 (initial [seatA, seatB]) (take 1 historyExpiry))
                 (Expire 60000 (seat_id seatA)))) (seat_id seatA) = Some lockOfU
   \<and> getLock (redis (initial [seatA, seatB])) (seat_id seatA) = None"
proof -
  let ?s = "run 120 (initial [seatA, seatB]) (take 1 historyExpiry)"
  have g: "getLock (redis ?s) (seat_id seatA) = Some lockOfU"
    by (simp add: historyExpiry_def lockOfU_def eval_defs)
  have n: "\<not> lockRemover ?s (seat_id seatA) lockOfU (Expire 60000 (seat_id seatA))"
    by (simp add: lockOfU_def)
  have "\<exists>res. fst (reserveSeat 120 (envAt 0 tokenU ''0.4fzyo82mvyr'' bookingOid True)
                 (initial [seatA, seatB]) ''event-app'' (seat_id seatA) userU) = Inr res"
    by (simp add: eval_defs)
  then obtain res where
    r: "fst (reserveSeat 120 (envAt 0 tokenU ''0.4fzyo82mvyr'' bookingOid True)
                 (initial [seatA, seatB]) ''event-app'' (seat_id seatA) userU) = Inr res"
    by blast
  from g n r
    lock_of_key_exclusive [of 120 "[seatA, seatB]" "[]" "seat_id seatA" ?s lockOfU
      "envAt 1000 tokenV ''0.k3x9q2m7p'' bookingOid True" "''event-app''" userV res
      "Expire 60000 (seat_id seatA)"]
    lock_of_key_exclusive [of 120 "[seatA, seatB]" "[]" "seat_id seatA" "initial [seatA, seatB]"
      lockOfU "envAt 0 tokenU ''0.4fzyo82mvyr'' bookingOid True" "''event-app''" userU res
      "Expire 60000 (seat_id seatA)"]
  show ?thesis by simp
qed

text \<open>
  C2 as stated fails.  After the lock of the first reservation has run out and the seat has
  been reserved again, seat \<open>A1\<close> has two reservations with status \<open>ACTIVE\<close>.  And after the
  seat has been reserved under two spellings of its id, it has two locks at once.
\<close>

theorem two_active_reservations_counterexample:
  "map res_reservationToken
     (activeReservations (run 120 (initial [seatA, seatB]) historyExpiry) (seat_id seatA)) =
     [tokenU, tokenV]
   \<and> \<not> length (activeReservations (run 120 (initial [seatA, seatB]) historyExpiry)
            (seat_id seatA)) \<le> 1
   \<and> map fst (locksOfSeat (redis (run 120 (initial [seatA, seatB]) historySpelling))
        (seat_id seatA)) =
     [''seat:lock:65a000000000000000000001'', ''seat:lock:65A000000000000000000001'']
   \<and> \<not> length (locksOfSeat (redis (run 120 (initial [seatA, seatB]) historySpelling))
            (seat_id seatA)) \<le> 1
   \<and> map res_reservationToken
     (activeReservations (run 120 (initial [seatA, seatB]) historySpelling) (seat_id seatA)) =
     [tokenU, tokenV]"
  by (simp add: historyExpiry_def historySpelling_def activeReservations_def locksOfSeat_def
      lockSeat_def eval_defs)

section \<open>Status of a reservation along a history\<close>

lemma statusMove_refl: "statusMove a a"
  by (cases a) simp_all

lemma statusMove_trans: "statusMove a b \<Longrightarrow> statusMove b c \<Longrightarrow> statusMove a c"
  by (cases a; cases b) auto

lemma length_replaceFirst: "length (replaceFirst P y xs) = length xs"
  by (induction xs) auto

lemma list_all2_replaceFirst:
  assumes "\<And>x. R x x" and "\<And>x. find P xs = Some x \<Longrightarrow> R x y"
  shows "list_all2 R xs (replaceFirst P y xs)"
  using assms(2)
proof (induction xs)
  case Nil
  then show ?case by simp
next
  case (Cons x xs)
  show ?case
  proof (cases "P x")
    case True
    then have "R x y" using Cons.prems by simp
    with True assms(1) show ?thesis by (simp add: list_all2_refl)
  next
    case False
    with Cons assms(1) show ?thesis by simp
  qed
qed

lemma rowsMove_refl: "rowsMove xs xs"
  by (simp add: rowsMove_def list_all2_refl statusMove_refl)

lemma rowsMove_append: "rowsMove xs (xs @ [r])"
  by (simp add: rowsMove_def list_all2_refl statusMove_refl)

lemma rowsMove_trans:
  assumes "rowsMove xs ys" and "rowsMove ys zs"
  shows "rowsMove xs zs"
proof -
  let ?R = "\<lambda>x y. res_reservationToken y = res_reservationToken x \<and>
                        statusMove (res_status x) (res_status y)"
  from assms have len: "length xs \<le> length ys" "length ys \<le> length zs"
    and a: "list_all2 ?R xs (take (length xs) ys)"
    and b: "list_all2 ?R ys (take (length ys) zs)"
    by (simp_all add: rowsMove_def)
  from b have "list_all2 ?R (take (length xs) ys) (take (length xs) (take (length ys) zs))"
    by (rule list_all2_takeI)
  with len have c: "list_all2 ?R (take (length xs) ys) (take (length xs) zs)"
    by (simp add: min_def)
  have "list_all2 ?R xs (take (length xs) zs)"
    using a c by (rule list_all2_trans [rotated]) (auto intro: statusMove_trans)
  with len show ?thesis by (simp add: rowsMove_def)
qed

lemma rowsMove_save:
  assumes "findReservation rows tok = Some r" and "statusMove (res_status r) st"
  shows "rowsMove rows (saveReservation rows (r\<lparr>res_status := st\<rparr>))"
proof -
  let ?R = "\<lambda>x y. res_reservationToken y = res_reservationToken x \<and>
                        statusMove (res_status x) (res_status y)"
  have t: "res_reservationToken r = tok"
    using assms(1) by (auto simp: findReservation_def find_Some_iff)
  have "list_all2 ?R rows
          (replaceFirst (\<lambda>y. res_reservationToken y = tok) (r\<lparr>res_status := st\<rparr>) rows)"
  proof (rule list_all2_replaceFirst)
    fix x show "?R x x" by (simp add: statusMove_refl)
  next
    fix x assume "find (\<lambda>y. res_reservationToken y = tok) rows = Some x"
    with assms(1) have "x = r" by (simp add: findReservation_def)
    with assms(2) show "?R x (r\<lparr>res_status := st\<rparr>)" by simp
  qed
  then show ?thesis
    by (simp add: rowsMove_def saveReservation_def t length_replaceFirst)
qed

lemma step_rowsMove: "rowsMove (reservations s) (reservations (step ttl s ev))"
  using step_rows [of ttl s ev]
  by (elim disjE exE conjE) (simp_all add: rowsMove_refl rowsMove_append rowsMove_save)

lemma run_rowsMove: "rowsMove (reservations s) (reservations (run ttl s es))"
proof (induction es arbitrary: s)
  case Nil
  show ?case by (simp add: run_def rowsMove_refl)
next
  case (Cons ev es)
  have "rowsMove (reservations s) (reservations (step ttl s ev))"
    by (rule step_rowsMove)
  moreover have "rowsMove (reservations (step ttl s ev)) (reservations (run ttl (step ttl s ev) es))"
    by (rule Cons.IH)
  ultimately show ?case
    by (simp add: run_def rowsMove_trans)
qed

text \<open>
  C4, as the code has it.  Along every history of reserve, confirm, release and lock-expiry
  steps, a stored reservation stays in its place under its token, and its status moves
  only as follows: from \<open>ACTIVE\<close> to any status, from \<open>EXPIRED\<close> to \<open>RELEASED\<close>, and otherwise
  not at all; \<open>CONFIRMED\<close> and \<open>RELEASED\<close> are kept for good.
\<close>

theorem status_moves_one_way:
  assumes "i < length (reservations s)"
  shows "i < length (reservations (run ttl s es))
       \<and> res_reservationToken (reservations (run ttl s es) ! i) =
           res_reservationToken (reservations s ! i)
       \<and> statusMove (res_status (reservations s ! i))
           (res_status (reservations (run ttl s es) ! i))"
proof -
  from run_rowsMove [of s ttl es]
  have len: "length (reservations s) \<le> length (reservations (run ttl s es))"
    and all: "list_all2 (\<lambda>x y. res_reservationToken y = res_reservationToken x \<and>
                        statusMove (res_status x) (res_status y))
        (reservations s) (take (length (reservations s)) (reservations (run ttl s es)))"
    by (simp_all add: rowsMove_def)
  from list_all2_nthD [OF all assms] assms len show ?thesis by simp
qed

text \<open>The reservation of the late confirmation, followed through its release.\<close>

theorem status_moves_one_way_witness:
  "0 < length (reservations (run 120 (initial [seatA, seatB]) (take 2 historyLate)))
   \<and> res_status (reservations (run 120 (initial [seatA, seatB]) (take 2 historyLate)) ! 0) = EXPIRED
   \<and> statusMove
         (res_status (reservations (run 120 (initial [seatA, seatB]) (take 2 historyLate)) ! 0))
         (res_status (reservations
            (run 120 (run 120 (initial [seatA, seatB]) (take 2 historyLate)) (drop 2 historyLate))
              ! 0))"
proof -
  have rows: "map res_status (reservations (run 120 (initial [seatA, seatB]) (take 2 historyLate)))
      = [EXPIRED]"
    by (simp add: historyLate_def eval_defs)
  then have h: "0 < length (reservations (run 120 (initial [seatA, seatB]) (take 2 historyLate)))"
    by (cases "reservations (run 120 (initial [seatA, seatB]) (take 2 historyLate))") simp_all
  from rows h
  have e: "res_status (reservations (run 120 (initial [seatA, seatB]) (take 2 historyLate)) ! 0)
      = EXPIRED"
    by (cases "reservations (run 120 (initial [seatA, seatB]) (take 2 historyLate))") simp_all
  from h e status_moves_one_way [OF h, of 120 "drop 2 historyLate"]
  show ?thesis by simp
qed

text \<open>
  C4 as stated fails: the late confirmation leaves the reservation \<open>EXPIRED\<close>, and the
  release that follows moves it on to \<open>RELEASED\<close>.
\<close>

theorem expired_then_released_counterexample:
  "map res_status (reservations (run 120 (initial [seatA, seatB]) (take 2 historyLate)))
      = [EXPIRED]
   \<and> map res_status (reservations (run 120 (initial [seatA, seatB]) historyLate)) = [RELEASED]"
  by (simp add: historyLate_def eval_defs)

end
